theory Spec2Isabelle
  imports Complex_Main
begin

section \<open>Run visualizer: track processing, orb animation and camera controller\<close>

text \<open>
  The development embeds the numeric and state-machine core of the run visualizer:
  \<^item> \<open>utils.js\<close>: \<open>downsampleTrack\<close>, \<open>calculateCenter\<close>, \<open>gpsToCartesian\<close>,
    \<open>processTracks\<close>, \<open>getPointOnCurve\<close>, \<open>easeInOutCubic\<close>;
  \<^item> \<open>TokyoRunVisualizer.jsx\<close>: the per-frame callback of \<open>RunnerOrbs\<close>;
  \<^item> \<open>hooks/useCameraAnimation.js\<close>: \<open>handleInteraction\<close>, \<open>selectRandomTrack\<close> and the
    per-frame transition handler.

  Conventions of the embedding.
  \<^item> A JavaScript number is a real number. The operations whose result selects an array
    element or is written as a camera pose are rounded to IEEE binary64 (\<open>roundDouble\<close>,
    section ``Double-precision arithmetic''): the stride of \<open>downsampleTrack\<close>, the
    interpolation \<open>lerpVectors\<close>, and the elapsed time and progress of the camera
    transition. The projection and the progress of the orbs are computed exactly, and so is
    \<open>easeInOutCubic\<close>, whose \<open>Math.pow\<close> the language leaves to the implementation (at 0
    it is exact).
  \<^item> A quotient of the model is the quotient of the source for a divisor other than zero.
    The divisors of the source are \<open>animationDuration\<close> and \<open>transitionSeconds\<close> (60 and
    1.5 in \<open>config.js\<close>), for which the theorems that depend on the value of the quotient
    assume a positive constant; \<open>maxPoints\<close>, whose quotient is not used when it is zero;
    and the number of points of the data set, where the source's \<open>0 / 0\<close> is written out
    as a case of its own.
  \<^item> \<open>Date.now()\<close> yields integer milliseconds (\<open>int\<close>); \<open>Math.random()\<close> is a sequence
    of readings \<open>rnd 0, rnd 1, \<dots>\<close> together with the position of the next reading.
  \<^item> \<open>null\<close> is \<open>None\<close>. React state variables and refs are fields of one state record,
    returned updated.
  \<^item> The rendering library is a collaborator: a curve is a value of an abstract type with
    its \<open>getPoint\<close>, the curve constructor and \<open>OrbitControls.update\<close> are parameters.
\<close>

subsection \<open>Data\<close>

datatype vec3 = Vector3 (vx: real) (vy: real) (vz: real)

text \<open>The centre \<open>{lat, lon}\<close>, and a parsed track point \<open>{lat, lon, ele}\<close>. The source
  compares points with \<open>!==\<close>, which on objects is identity, so each point object carries
  its identity \<open>oid\<close>: two points are the same object exactly when they are equal here.\<close>

record latlon =
  lat :: real
  lon :: real

record point = latlon +
  ele :: real
  oid :: nat

text \<open>A parsed track \<open>{points, metadata: {timestamp, index}}\<close> as \<open>parseGPX\<close> builds it.\<close>

record rawMetadata =
  timestamp :: "string option"
  index :: nat

record trackData =
  points :: "point list"
  metadata :: rawMetadata

text \<open>The metadata of a processed track is \<open>{...metadata, startLat, startLon, endLat, endLon}\<close>.\<close>

record processedMetadata = rawMetadata +
  startLat :: real
  startLon :: real
  endLat :: real
  endLon :: real

text \<open>A processed track \<open>{id, points, curve, originalPointCount, processedPointCount,
  metadata}\<close>. The fields \<open>id\<close>, \<open>points\<close> and \<open>metadata\<close> are named \<open>trackId\<close>,
  \<open>points3D\<close> and \<open>trackMetadata\<close> here. A projected point is \<open>None\<close> when the centre
  is not a number. The \<open>curve\<close> may be absent, which the frame callback checks.\<close>

record 'c processedTrack =
  trackId :: nat
  points3D :: "vec3 option list"
  curve :: "'c option"
  originalPointCount :: nat
  processedPointCount :: nat
  trackMetadata :: processedMetadata

text \<open>The part of \<open>config.js\<close> that the embedded functions read.\<close>

record cameraAnimationSettings =
  enabled :: bool
  intervalSeconds :: real
  transitionSeconds :: real
  inactivityTimeout :: real

record settings =
  animationDuration :: real
  animationLoop :: bool
  projectionScale :: real
  elevationScale :: real
  maxPointsPerTrack :: nat
  featuredRunSize :: real
  cameraAnimation :: cameraAnimationSettings

definition config :: settings where
  "config =
     \<lparr> animationDuration = 60,
       animationLoop = True,
       projectionScale = 10000,
       elevationScale = 1 / 10,
       maxPointsPerTrack = 1000,
       featuredRunSize = 12 / 10,
       cameraAnimation =
         \<lparr> enabled = True,
           intervalSeconds = 4,
           transitionSeconds = 15 / 10,
           inactivityTimeout = 3 \<rparr> \<rparr>"

subsection \<open>Double-precision arithmetic\<close>

text \<open>The numbers of the source are IEEE binary64 values. \<open>roundDouble\<close> rounds a real
  number to the nearest number with a significand of 53 bits, ties to the even
  significand, as every arithmetic operation of the language does with its exact result.
  The exponent is not bounded here: there is no overflow to infinity and no subnormal
  range, which the quantities of this program (positions in an array, scene coordinates)
  do not reach.

  \<open>bitLength n\<close> is the number of binary digits of \<open>n\<close>, \<open>exponent x\<close> the integer \<open>e\<close> with
  \<open>2^e \<le> |x| < 2^(e+1)\<close>, \<open>ulp x\<close> the spacing \<open>2^(e-52)\<close> of the doubles of that binade,
  \<open>roundEven\<close> rounding to the nearest integer, ties to even, and \<open>roundTo q\<close> rounding to
  the nearest multiple of \<open>q\<close>.\<close>

fun bitLength :: "nat \<Rightarrow> nat" where
  "bitLength n = (if n = 0 then 0 else Suc (bitLength (n div 2)))"

declare bitLength.simps [simp del]

definition exponent :: "real \<Rightarrow> int" where
  "exponent x =
     (if 1 \<le> \<bar>x\<bar> then int (bitLength (nat \<lfloor>\<bar>x\<bar>\<rfloor>)) - 1
      else - int (bitLength (nat \<lceil>1 / \<bar>x\<bar>\<rceil> - 1)))"

definition roundEven :: "real \<Rightarrow> int" where
  "roundEven y =
     (let f = \<lfloor>y\<rfloor> in
      if y - of_int f < 1 / 2 then f
      else if 1 / 2 < y - of_int f then f + 1
      else if even f then f else f + 1)"

definition roundTo :: "real \<Rightarrow> real \<Rightarrow> real" where
  "roundTo q x = of_int (roundEven (x / q)) * q"

definition ulp :: "real \<Rightarrow> real" where
  "ulp x = 2 powi (exponent x - 52)"

definition roundDouble :: "real \<Rightarrow> real" where
  "roundDouble x = (if x = 0 then 0 else roundTo (ulp x) x)"

text \<open>The operators \<open>/\<close>, \<open>*\<close>, \<open>+\<close> and \<open>-\<close> on numbers.\<close>

definition jsDivide :: "real \<Rightarrow> real \<Rightarrow> real" where
  "jsDivide a b = roundDouble (a / b)"

definition jsMultiply :: "real \<Rightarrow> real \<Rightarrow> real" where
  "jsMultiply a b = roundDouble (a * b)"

definition jsAdd :: "real \<Rightarrow> real \<Rightarrow> real" where
  "jsAdd a b = roundDouble (a + b)"

definition jsSubtract :: "real \<Rightarrow> real \<Rightarrow> real" where
  "jsSubtract a b = roundDouble (a - b)"

subsection \<open>\<open>downsampleTrack\<close>\<close>

text \<open>The \<open>for\<close> loop that pushes \<open>points[Math.floor(i * step)]\<close> for
  \<open>i = 0, \<dots>, maxPoints - 1\<close>; \<open>downsampled\<close> is the array built so far. The loop counter
  is an integer below \<open>2^53\<close>, hence exact; the product is rounded.\<close>

function pushSamples :: "'a list \<Rightarrow> real \<Rightarrow> nat \<Rightarrow> nat \<Rightarrow> 'a list \<Rightarrow> 'a list" where
  "pushSamples pts step maxPoints i downsampled =
     (if i < maxPoints
      then pushSamples pts step maxPoints (Suc i)
             (downsampled @ [pts ! nat \<lfloor>jsMultiply (real i) step\<rfloor>])
      else downsampled)"
  by pat_completeness auto
termination
  by (relation "measure (\<lambda>(pts, step, maxPoints, i, downsampled). maxPoints - i)") auto

declare pushSamples.simps [simp del]

text \<open>\<open>downsampleTrack(points, maxPoints)\<close>; \<open>step = points.length / maxPoints\<close> is the
  rounded quotient. With \<open>maxPoints = 0\<close> and a non-empty input the loop does not run,
  \<open>downsampled[-1]\<close> is \<open>undefined\<close> and the last point is pushed: the test
  \<open>downsampled = []\<close> is that case.\<close>

definition downsampleTrack :: "'a list \<Rightarrow> nat \<Rightarrow> 'a list" where
  "downsampleTrack pts maxPoints =
     (if length pts \<le> maxPoints then pts
      else
        let step = jsDivide (real (length pts)) (real maxPoints);
            downsampled = pushSamples pts step maxPoints 0 []
        in if downsampled = [] \<or> last downsampled \<noteq> last pts
           then downsampled @ [last pts]
           else downsampled)"

text \<open>The index \<open>Math.floor(i * step)\<close> with \<open>step = len / maxPoints\<close>, as the source
  computes it.\<close>

definition strideIndex :: "nat \<Rightarrow> nat \<Rightarrow> nat \<Rightarrow> nat" where
  "strideIndex len maxPoints i =
     nat \<lfloor>jsMultiply (real i) (jsDivide (real len) (real maxPoints))\<rfloor>"

subsection \<open>\<open>calculateCenter\<close> and \<open>gpsToCartesian\<close>\<close>

text \<open>The two nested \<open>forEach\<close> loops accumulate \<open>(totalLat, totalLon, totalPoints)\<close>.\<close>

fun addPoints :: "point list \<Rightarrow> real \<times> real \<times> nat \<Rightarrow> real \<times> real \<times> nat" where
  "addPoints [] acc = acc"
| "addPoints (p # ps) (totalLat, totalLon, totalPoints) =
     addPoints ps (totalLat + lat p, totalLon + lon p, Suc totalPoints)"

fun addTracks :: "trackData list \<Rightarrow> real \<times> real \<times> nat \<Rightarrow> real \<times> real \<times> nat" where
  "addTracks [] acc = acc"
| "addTracks (t # ts) acc = addTracks ts (addPoints (points t) acc)"

text \<open>\<open>calculateCenter(tracks)\<close>. Without any point both quotients are \<open>0 / 0\<close>, not a
  number: that centre is \<open>None\<close>.\<close>

definition calculateCenter :: "trackData list \<Rightarrow> latlon option" where
  "calculateCenter tracks =
     (case addTracks tracks (0, 0, 0) of
        (totalLat, totalLon, totalPoints) \<Rightarrow>
          if totalPoints = 0 then None
          else Some \<lparr> lat = totalLat / real totalPoints, lon = totalLon / real totalPoints \<rparr>)"

text \<open>\<open>gpsToCartesian(lat, lon, ele, center)\<close>; the result \<open>{x, y, z}\<close> is given as the
  vector that \<open>processTracks\<close> makes of it.\<close>

definition gpsToCartesian :: "settings \<Rightarrow> real \<Rightarrow> real \<Rightarrow> real \<Rightarrow> latlon \<Rightarrow> vec3" where
  "gpsToCartesian cfg la lo el center =
     (let latScale = projectionScale cfg;
          lonScale = projectionScale cfg * cos (lat center * pi / 180);
          x = (lo - lon center) * lonScale;
          z = - (la - lat center) * latScale;
          y = el * elevationScale cfg
      in Vector3 x y z)"

subsection \<open>\<open>processTracks\<close>\<close>

text \<open>The body of the \<open>forEach\<close> callback for the track at position \<open>i\<close>: \<open>None\<close> when the
  callback returns without pushing. \<open>mkCurve\<close> stands for
  \<open>new THREE.CatmullRomCurve3(points3D, false, 'catmullrom', 0.5)\<close>, with \<open>None\<close> for a
  constructor that throws.\<close>

definition processTrack ::
  "settings \<Rightarrow> (vec3 option list \<Rightarrow> 'c option) \<Rightarrow> latlon option \<Rightarrow> nat \<Rightarrow> trackData
     \<Rightarrow> 'c processedTrack option" where
  "processTrack cfg mkCurve center i t =
     (let track = points t;
          downsampledTrack = downsampleTrack track (maxPointsPerTrack cfg);
          pts3D = map (\<lambda>p. map_option (gpsToCartesian cfg (lat p) (lon p) (ele p)) center)
                     downsampledTrack
      in if length pts3D < 2 then None
         else case mkCurve pts3D of
           None \<Rightarrow> None
         | Some c \<Rightarrow>
             Some \<lparr> trackId = i,
                    points3D = pts3D,
                    curve = Some c,
                    originalPointCount = length track,
                    processedPointCount = length pts3D,
                    trackMetadata =
                      \<lparr> timestamp = timestamp (metadata t),
                        index = index (metadata t),
                        startLat = lat (track ! 0),
                        startLon = lon (track ! 0),
                        endLat = lat (track ! (length track - 1)),
                        endLon = lon (track ! (length track - 1)) \<rparr> \<rparr>)"

text \<open>\<open>tracks.forEach((trackData, index) => \<dots>)\<close>: \<open>i\<close> is the position of the head of the
  remaining list in the whole array, \<open>processedTracks\<close> the array pushed so far.\<close>

fun processEach ::
  "settings \<Rightarrow> (vec3 option list \<Rightarrow> 'c option) \<Rightarrow> latlon option \<Rightarrow> nat \<Rightarrow> trackData list
     \<Rightarrow> 'c processedTrack list \<Rightarrow> 'c processedTrack list" where
  "processEach cfg mkCurve center i [] processedTracks = processedTracks"
| "processEach cfg mkCurve center i (t # ts) processedTracks =
     processEach cfg mkCurve center (Suc i) ts
       (case processTrack cfg mkCurve center i t of
          None \<Rightarrow> processedTracks
        | Some pt \<Rightarrow> processedTracks @ [pt])"

text \<open>\<open>processTracks(tracks)\<close>; the argument is \<open>None\<close> for \<open>null\<close>.\<close>

definition processTracks ::
  "settings \<Rightarrow> (vec3 option list \<Rightarrow> 'c option) \<Rightarrow> trackData list option
     \<Rightarrow> 'c processedTrack list" where
  "processTracks cfg mkCurve tracks =
     (case tracks of
        None \<Rightarrow> []
      | Some ts \<Rightarrow>
          if ts = [] then []
          else processEach cfg mkCurve (calculateCenter ts) 0 ts [])"

subsection \<open>The frame callback of \<open>RunnerOrbs\<close>\<close>

text \<open>\<open>getPointOnCurve(curve, progress)\<close>; \<open>getPoint\<close> is the curve's own method.\<close>

definition getPointOnCurve :: "('c \<Rightarrow> real \<Rightarrow> vec3) \<Rightarrow> 'c \<Rightarrow> real \<Rightarrow> vec3" where
  "getPointOnCurve getPoint c progress =
     (let t = max 0 (min 1 progress) in getPoint c t)"

text \<open>The operator \<open>%\<close> on numbers: the remainder has the sign of the dividend, the
  quotient is truncated towards zero.\<close>

definition jsRemainder :: "real \<Rightarrow> real \<Rightarrow> real" where
  "jsRemainder a b = a - b * of_int (if 0 \<le> a / b then \<lfloor>a / b\<rfloor> else \<lceil>a / b\<rceil>)"

text \<open>\<open>elapsed = (Date.now() - startTimeRef.current) / 1000\<close> and the \<open>progress\<close> computed
  from it.\<close>

definition elapsedSeconds :: "int \<Rightarrow> int \<Rightarrow> real" where
  "elapsedSeconds now startTime = real_of_int (now - startTime) / 1000"

definition animationProgress :: "settings \<Rightarrow> real \<Rightarrow> real" where
  "animationProgress cfg elapsed =
     (if animationLoop cfg
      then jsRemainder elapsed (animationDuration cfg) / animationDuration cfg
      else min (elapsed / animationDuration cfg) 1)"

text \<open>An instance matrix is composed from the position and the scale of \<open>tempObject\<close>
  (its rotation is never set). An instanced mesh holds the matrices written with
  \<open>setMatrixAt\<close>, by slot; the capacity of the underlying buffer is not modelled.\<close>

record orbInstance =
  position :: vec3
  scale :: vec3

record mesh =
  instanceMatrix :: "nat \<Rightarrow> orbInstance option"
  needsUpdate :: bool
  count :: nat
  emissiveIntensity :: real

definition setMatrixAt :: "nat \<Rightarrow> orbInstance \<Rightarrow> mesh \<Rightarrow> mesh" where
  "setMatrixAt slot m msh = msh\<lparr> instanceMatrix := (instanceMatrix msh)(slot \<mapsto> m) \<rparr>"

text \<open>The refs of the component; a mesh ref is \<open>None\<close> while the mesh is not mounted.\<close>

record orbRefs =
  startTimeRef :: int
  nonFeaturedMeshRef :: "mesh option"
  featuredMeshRef :: "mesh option"

text \<open>The loop \<open>for (let i = 0; i < count; i++)\<close> over \<open>tracks[i]\<close>, carrying
  \<open>nonFeaturedIndex\<close>, \<open>featuredIndex\<close> and the meshes; \<open>featured\<close> is the prop
  \<open>featuredTrackIndex\<close>.\<close>

fun updateInstances ::
  "settings \<Rightarrow> ('c \<Rightarrow> real \<Rightarrow> vec3) \<Rightarrow> real \<Rightarrow> int option \<Rightarrow> nat \<Rightarrow> 'c processedTrack list
     \<Rightarrow> nat \<times> nat \<times> orbRefs \<Rightarrow> nat \<times> nat \<times> orbRefs" where
  "updateInstances cfg getPoint progress featured i [] st = st"
| "updateInstances cfg getPoint progress featured i (track # rest)
       (nonFeaturedIndex, featuredIndex, refs) =
     updateInstances cfg getPoint progress featured (Suc i) rest
       (case curve track of
          None \<Rightarrow> (nonFeaturedIndex, featuredIndex, refs)
        | Some c \<Rightarrow>
            let pnt = getPointOnCurve getPoint c progress in
            if Some (int i) = featured then
              (case featuredMeshRef refs of
                 None \<Rightarrow> (nonFeaturedIndex, featuredIndex, refs)
               | Some msh \<Rightarrow>
                   (nonFeaturedIndex, Suc featuredIndex,
                    refs\<lparr> featuredMeshRef := Some (setMatrixAt featuredIndex
                      \<lparr> position = pnt,
                        scale = Vector3 (featuredRunSize cfg) (featuredRunSize cfg)
                                  (featuredRunSize cfg) \<rparr> msh) \<rparr>))
            else
              (case nonFeaturedMeshRef refs of
                 None \<Rightarrow> (nonFeaturedIndex, featuredIndex, refs)
               | Some msh \<Rightarrow>
                   (Suc nonFeaturedIndex, featuredIndex,
                    refs\<lparr> nonFeaturedMeshRef := Some (setMatrixAt nonFeaturedIndex
                      \<lparr> position = pnt, scale = Vector3 1 1 1 \<rparr> msh) \<rparr>)))"

text \<open>The whole callback. \<open>clock k\<close> is the \<open>k\<close>-th reading of \<open>Date.now()\<close> and \<open>k\<close> the
  position of the next reading; the callback returns the position after its readings.\<close>

definition runnerOrbsFrame ::
  "settings \<Rightarrow> ('c \<Rightarrow> real \<Rightarrow> vec3) \<Rightarrow> (nat \<Rightarrow> int) \<Rightarrow> nat \<Rightarrow> 'c processedTrack list
     \<Rightarrow> int option \<Rightarrow> orbRefs \<Rightarrow> orbRefs \<times> nat" where
  "runnerOrbsFrame cfg getPoint clock k tracks featured refs =
     (let elapsed = elapsedSeconds (clock k) (startTimeRef refs);
          progress = animationProgress cfg elapsed;
          blinkSpeed = 3;
          blinkProgress = (sin (elapsed * blinkSpeed * pi * 2) + 1) / 2;
          blinkIntensity = 10 + blinkProgress * 8
      in case updateInstances cfg getPoint progress featured 0 tracks (0, 0, refs) of
           (nonFeaturedIndex, featuredIndex, refs1) \<Rightarrow>
             let refs2 = (case nonFeaturedMeshRef refs1 of
                            None \<Rightarrow> refs1
                          | Some msh \<Rightarrow>
                              refs1\<lparr> nonFeaturedMeshRef :=
                                Some (msh\<lparr> needsUpdate := True, count := nonFeaturedIndex \<rparr>) \<rparr>);
                 refs3 = (case featuredMeshRef refs2 of
                            None \<Rightarrow> refs2
                          | Some msh \<Rightarrow>
                              refs2\<lparr> featuredMeshRef :=
                                Some (msh\<lparr> needsUpdate := True, count := featuredIndex,
                                           emissiveIntensity := blinkIntensity \<rparr>) \<rparr>)
             in (refs3, Suc k))"

subsection \<open>The camera hook \<open>useCameraAnimation\<close>\<close>

datatype animState = AUTO | TRANSITIONING | USER_CONTROL

record transitionData =
  startPosition :: vec3
  startTarget :: vec3
  targetPosition :: vec3
  targetLookAt :: vec3

text \<open>The state variables and refs of the hook, the camera position, and the target of the
  orbit controls (\<open>None\<close> while \<open>orbitControlsRef.current\<close> is not set). The setter of a
  state variable updates the variable; the ref that mirrors it is copied by \<open>syncRefs\<close>,
  the two effects that run after a render.\<close>

record hookState =
  featuredTrackIndex :: "int option"
  animationState :: animState
  lastInteractionRef :: int
  transitionStartRef :: "int option"
  transitionDataRef :: "transitionData option"
  animationStateRef :: animState
  featuredTrackIndexRef :: "int option"
  cameraPosition :: vec3
  controlsTarget :: "vec3 option"

definition syncRefs :: "hookState \<Rightarrow> hookState" where
  "syncRefs s = s\<lparr> animationStateRef := animationState s,
                    featuredTrackIndexRef := featuredTrackIndex s \<rparr>"

text \<open>\<open>handleInteraction\<close>, the listener of the controls' \<open>change\<close> event.\<close>

definition handleInteraction :: "(nat \<Rightarrow> int) \<Rightarrow> nat \<Rightarrow> hookState \<Rightarrow> hookState \<times> nat" where
  "handleInteraction clock k s =
     (let currentState = animationStateRef s in
      if currentState = TRANSITIONING then (s, k)
      else
        let s1 = s\<lparr> lastInteractionRef := clock k \<rparr> in
        (if currentState = AUTO then s1\<lparr> animationState := USER_CONTROL \<rparr> else s1, Suc k))"

text \<open>The \<open>do \<dots> while\<close> loop of \<open>selectRandomTrack\<close>. \<open>rnd r\<close> is the \<open>r\<close>-th reading of
  \<open>Math.random()\<close>; the result is the index with the position of the next reading, and
  \<open>None\<close> when the loop does not end.\<close>

partial_function (option) selectLoop ::
  "(nat \<Rightarrow> real) \<Rightarrow> nat \<Rightarrow> nat \<Rightarrow> int option \<Rightarrow> (int \<times> nat) option" where
  "selectLoop rnd r len featured =
     (let newIndex = \<lfloor>rnd r * real len\<rfloor> in
      if Some newIndex = featured \<and> len > 1
      then selectLoop rnd (Suc r) len featured
      else Some (newIndex, Suc r))"


text \<open>\<open>easeInOutCubic(t)\<close>, in exact arithmetic. At \<open>t = 1\<close>, the only argument at which
  a theorem below uses its value, the source computes \<open>1 - Math.pow(0, 3) / 2\<close>, which is
  1 in doubles too.\<close>

definition easeInOutCubic :: "real \<Rightarrow> real" where
  "easeInOutCubic t = (if t < 1 / 2 then 4 * t * t * t else 1 - (- 2 * t + 2) ^ 3 / 2)"

text \<open>\<open>Vector3.lerpVectors(v1, v2, alpha)\<close> of the rendering library sets each component
  to \<open>v1 + (v2 - v1) * alpha\<close>, three operations on doubles.\<close>

definition lerp :: "real \<Rightarrow> real \<Rightarrow> real \<Rightarrow> real" where
  "lerp a b alpha = jsAdd a (jsMultiply (jsSubtract b a) alpha)"

definition lerpVectors :: "vec3 \<Rightarrow> vec3 \<Rightarrow> real \<Rightarrow> vec3" where
  "lerpVectors v1 v2 alpha =
     Vector3 (lerp (vx v1) (vx v2) alpha)
             (lerp (vy v1) (vy v2) alpha)
             (lerp (vz v1) (vz v2) alpha)"

text \<open>\<open>elapsed\<close> and \<open>progress\<close> of the transition handler; \<open>Date.now() - null\<close> is
  \<open>Date.now()\<close>. The difference of two times in milliseconds is an integer and exact; the
  two quotients are rounded.\<close>

definition transitionElapsed :: "int \<Rightarrow> hookState \<Rightarrow> real" where
  "transitionElapsed now s =
     jsDivide (real_of_int (now - (case transitionStartRef s of None \<Rightarrow> 0 | Some t0 \<Rightarrow> t0)))
       1000"

definition transitionProgress :: "settings \<Rightarrow> int \<Rightarrow> hookState \<Rightarrow> real" where
  "transitionProgress cfg now s =
     min (jsDivide (transitionElapsed now s) (transitionSeconds (cameraAnimation cfg))) 1"

text \<open>The \<open>useFrame\<close> callback of the hook. \<open>update\<close> stands for
  \<open>orbitControlsRef.current.update()\<close>, which is handed the camera position and the target
  just written and leaves the pose it settles on.\<close>

definition transitionFrame ::
  "settings \<Rightarrow> (vec3 \<Rightarrow> vec3 \<Rightarrow> vec3 \<times> vec3) \<Rightarrow> (nat \<Rightarrow> int) \<Rightarrow> nat \<Rightarrow> hookState
     \<Rightarrow> hookState \<times> nat" where
  "transitionFrame cfg update clock k s =
     (case transitionDataRef s of
        None \<Rightarrow> (s, k)
      | Some d \<Rightarrow>
          if animationState s \<noteq> TRANSITIONING then (s, k)
          else
            let progress = transitionProgress cfg (clock k) s;
                easedProgress = easeInOutCubic progress;
                s1 = s\<lparr> cameraPosition :=
                         lerpVectors (startPosition d) (targetPosition d) easedProgress \<rparr>;
                s2 = (case controlsTarget s1 of
                        None \<Rightarrow> s1
                      | Some old \<Rightarrow>
                          let newTarget =
                                lerpVectors (startTarget d) (targetLookAt d) easedProgress
                          in case update (cameraPosition s1) newTarget of
                               (p, t) \<Rightarrow> s1\<lparr> cameraPosition := p, controlsTarget := Some t \<rparr>)
            in (if progress \<ge> 1
                then s2\<lparr> animationState := AUTO, transitionDataRef := None \<rparr>
                else s2,
                Suc k))"

subsection \<open>Reading the instance buffers\<close>

text \<open>The curves of the tracks that the loop of \<open>RunnerOrbs\<close> writes to one mesh, in the
  order of the tracks: those that have a curve and are (\<open>wantFeatured\<close>) or are not the
  featured track; \<open>i\<close> is the position of the head of the list.\<close>

fun orbCurves :: "bool \<Rightarrow> int option \<Rightarrow> nat \<Rightarrow> 'c processedTrack list \<Rightarrow> 'c list" where
  "orbCurves wantFeatured featured i [] = []"
| "orbCurves wantFeatured featured i (t # ts) =
     (case curve t of
        None \<Rightarrow> []
      | Some c \<Rightarrow> if (Some (int i) = featured) = wantFeatured then [c] else [])
     @ orbCurves wantFeatured featured (Suc i) ts"

text \<open>Writing a list of instances to consecutive slots of a mesh.\<close>

fun writeAll :: "nat \<Rightarrow> orbInstance list \<Rightarrow> mesh \<Rightarrow> mesh" where
  "writeAll slot [] msh = msh"
| "writeAll slot (m # ms) msh = writeAll (Suc slot) ms (setMatrixAt slot m msh)"

subsection \<open>Closeness of a written pose\<close>

text \<open>\<open>withinRounding v1 v2 w\<close>: each component of \<open>w\<close> differs from that of \<open>v2\<close> by at
  most \<open>(|v1| + |v2|) / 2^51\<close>, the rounding of an interpolation from \<open>v1\<close> that ends at
  \<open>v2\<close>.\<close>

definition withinRounding :: "vec3 \<Rightarrow> vec3 \<Rightarrow> vec3 \<Rightarrow> bool" where
  "withinRounding v1 v2 w \<longleftrightarrow>
     \<bar>vx w - vx v2\<bar> \<le> (\<bar>vx v1\<bar> + \<bar>vx v2\<bar>) / 2 ^ 51 \<and>
     \<bar>vy w - vy v2\<bar> \<le> (\<bar>vy v1\<bar> + \<bar>vy v2\<bar>) / 2 ^ 51 \<and>
     \<bar>vz w - vz v2\<bar> \<le> (\<bar>vz v1\<bar> + \<bar>vz v2\<bar>) / 2 ^ 51"

subsection \<open>Sample data\<close>

text \<open>A transition in flight, used to run the theorems on concrete states.\<close>

definition demoPose :: transitionData where
  "demoPose = \<lparr> startPosition = Vector3 0 150 150, startTarget = Vector3 0 0 0,
                 targetPosition = Vector3 10 60 (- 20), targetLookAt = Vector3 5 1 (- 3) \<rparr>"

definition demoHook :: hookState where
  "demoHook =
     \<lparr> featuredTrackIndex = Some 2, animationState = TRANSITIONING, lastInteractionRef = 0,
       transitionStartRef = Some 1000, transitionDataRef = Some demoPose,
       animationStateRef = TRANSITIONING, featuredTrackIndexRef = Some 2,
       cameraPosition = Vector3 0 150 150, controlsTarget = Some (Vector3 0 0 0) \<rparr>"

text \<open>A transition from \<open>x = 0.7\<close> to \<open>x = -0.1\<close>, both as doubles, in a hook whose orbit
  controls are not mounted; a clock that reads 2500 ms; an \<open>update\<close> that leaves the pose
  as it is, and one that moves the camera by three units in the last place of a coordinate
  near 20, as a recomputation of the position from the spherical coordinates of the orbit
  may.\<close>

definition roundingPose :: transitionData where
  "roundingPose =
     \<lparr> startPosition = Vector3 (roundDouble (7 / 10)) 0 0, startTarget = Vector3 0 0 0,
       targetPosition = Vector3 (roundDouble (- 1 / 10)) 0 0, targetLookAt = Vector3 0 0 0 \<rparr>"

definition roundingHook :: hookState where
  "roundingHook =
     \<lparr> featuredTrackIndex = Some 2, animationState = TRANSITIONING, lastInteractionRef = 0,
       transitionStartRef = Some 1000, transitionDataRef = Some roundingPose,
       animationStateRef = TRANSITIONING, featuredTrackIndexRef = Some 2,
       cameraPosition = Vector3 (roundDouble (7 / 10)) 0 0, controlsTarget = None \<rparr>"

definition lateClock :: "nat \<Rightarrow> int" where
  "lateClock n = 2500"

definition keepPose :: "vec3 \<Rightarrow> vec3 \<Rightarrow> vec3 \<times> vec3" where
  "keepPose p t = (p, t)"

definition settlePose :: "vec3 \<Rightarrow> vec3 \<Rightarrow> vec3 \<times> vec3" where
  "settlePose p t = (Vector3 (vx p) (vy p) (vz p + 3 / 2 ^ 48), t)"

text \<open>A track without points, and three parsed tracks of which the second has a single
  point.\<close>

definition emptyTrack :: trackData where
  "emptyTrack = \<lparr> points = [], metadata = \<lparr> timestamp = None, index = 0 \<rparr> \<rparr>"

definition demoTracks :: "trackData list" where
  "demoTracks =
     [ \<lparr> points = [ \<lparr> lat = 35, lon = 139, ele = 0, oid = 0 \<rparr>,
                    \<lparr> lat = 36, lon = 140, ele = 10, oid = 1 \<rparr> ],
         metadata = \<lparr> timestamp = None, index = 0 \<rparr> \<rparr>,
       \<lparr> points = [ \<lparr> lat = 35, lon = 139, ele = 0, oid = 2 \<rparr> ],
         metadata = \<lparr> timestamp = None, index = 1 \<rparr> \<rparr>,
       \<lparr> points = [ \<lparr> lat = 34, lon = 138, ele = 0, oid = 3 \<rparr>,
                    \<lparr> lat = 35, lon = 139, ele = 20, oid = 4 \<rparr> ],
         metadata = \<lparr> timestamp = None, index = 2 \<rparr> \<rparr> ]"

text \<open>Four processed tracks whose curves are segments (the third has no curve), a
  mounted mesh, and the refs of \<open>RunnerOrbs\<close> one second after the epoch.\<close>

definition demoOrb :: "nat \<Rightarrow> (vec3 \<times> vec3) option \<Rightarrow> (vec3 \<times> vec3) processedTrack" where
  "demoOrb i c =
     \<lparr> trackId = i, points3D = [], curve = c, originalPointCount = 2,
       processedPointCount = 2,
       trackMetadata = \<lparr> timestamp = None, index = i, startLat = 0, startLon = 0,
                         endLat = 0, endLon = 0 \<rparr> \<rparr>"

definition demoOrbs :: "(vec3 \<times> vec3) processedTrack list" where
  "demoOrbs =
     [ demoOrb 0 (Some (Vector3 0 0 0, Vector3 4 8 12)),
       demoOrb 1 (Some (Vector3 0 0 0, Vector3 40 0 0)),
       demoOrb 2 None,
       demoOrb 3 (Some (Vector3 8 8 8, Vector3 0 0 0)) ]"

definition demoMesh :: mesh where
  "demoMesh = \<lparr> instanceMatrix = Map.empty, needsUpdate = False, count = 0,
                 emissiveIntensity = 12 \<rparr>"

definition demoRefs :: orbRefs where
  "demoRefs = \<lparr> startTimeRef = 1000, nonFeaturedMeshRef = Some demoMesh,
                 featuredMeshRef = Some demoMesh \<rparr>"

definition segmentPoint :: "vec3 \<times> vec3 \<Rightarrow> real \<Rightarrow> vec3" where
  "segmentPoint c t = lerpVectors (fst c) (snd c) t"

section \<open>Properties\<close>

subsection \<open>Rounding to a double\<close>

lemma bitLength_bounds:
  "0 < n \<Longrightarrow> 2 ^ (bitLength n - 1) \<le> n \<and> n < 2 ^ bitLength n"
proof (induction n rule: bitLength.induct)
  case (1 n)
  show ?case
  proof (cases "n div 2 = 0")
    case True
    with "1.prems" have "n = 1" by (simp add: div_eq_0_iff)
    then show ?thesis by (simp add: bitLength.simps [of "Suc 0"] bitLength.simps [of 0])
  next
    case False
    then have pos: "0 < n div 2" by simp
    from "1.IH" [OF _ pos] "1.prems"
    have lo: "2 ^ (bitLength (n div 2) - 1) \<le> n div 2" and hi: "n div 2 < 2 ^ bitLength (n div 2)"
      by auto
    have bl: "bitLength n = Suc (bitLength (n div 2))"
      using "1.prems" by (subst bitLength.simps) simp
    have blpos: "0 < bitLength (n div 2)"
      using pos by (subst bitLength.simps) simp
    then obtain c where c: "bitLength (n div 2) = Suc c" by (cases "bitLength (n div 2)") auto
    have "2 ^ Suc c \<le> 2 * (n div 2)" using lo c by simp
    also have "\<dots> \<le> n" by simp
    finally have "2 ^ (bitLength n - 1) \<le> n" by (simp add: bl c)
    moreover have "n < 2 * 2 ^ bitLength (n div 2)" using hi by linarith
    then have "n < 2 ^ bitLength n" by (simp add: bl)
    ultimately show ?thesis by blast
  qed
qed


lemma exponent_bounds:
  assumes "x \<noteq> 0"
  shows "2 powi exponent x \<le> \<bar>x\<bar> \<and> \<bar>x\<bar> < 2 powi (exponent x + 1)"
proof (cases "1 \<le> \<bar>x\<bar>")
  case True
  define N where "N = nat \<lfloor>\<bar>x\<bar>\<rfloor>"
  define c where "c = bitLength N"
  have N1: "0 < N" using True by (simp add: N_def)
  have "0 \<le> \<lfloor>\<bar>x\<bar>\<rfloor>" by simp
  then have NN: "real N = of_int \<lfloor>\<bar>x\<bar>\<rfloor>" by (simp add: N_def)
  have Nle: "real N \<le> \<bar>x\<bar>" and Ngt: "\<bar>x\<bar> < real N + 1"
    unfolding NN by linarith+
  from bitLength_bounds [OF N1] have lo: "2 ^ (c - 1) \<le> N" and hi: "N < 2 ^ c"
    by (simp_all add: c_def)
  have cpos: "0 < c" using hi N1 by (cases c) auto
  have e: "exponent x = int (c - 1)"
    using True cpos by (simp add: exponent_def N_def c_def)
  have e1: "exponent x + 1 = int c" using e cpos by simp
  have "real (2 ^ (c - 1)) \<le> real N" using lo by (rule of_nat_mono)
  then have r1: "(2::real) ^ (c - 1) \<le> real N" by simp
  have "2 powi exponent x = (2::real) ^ (c - 1)" by (simp only: e power_int_of_nat)
  with r1 Nle have A: "2 powi exponent x \<le> \<bar>x\<bar>" by linarith
  have "Suc N \<le> 2 ^ c" using hi by simp
  then have "real (Suc N) \<le> real (2 ^ c)" by (rule of_nat_mono)
  then have r2: "real N + 1 \<le> 2 ^ c" by simp
  have "2 powi (exponent x + 1) = (2::real) ^ c" by (simp only: e1 power_int_of_nat)
  with r2 Ngt have B: "\<bar>x\<bar> < 2 powi (exponent x + 1)" by linarith
  from A B show ?thesis by blast
next
  case False
  define a where "a = \<bar>x\<bar>"
  have small: "a < 1" using False by (simp add: a_def)
  have pos: "0 < a" using assms by (simp add: a_def)
  define y where "y = 1 / a"
  have y1: "1 < y" using small pos by (simp add: y_def)
  define M where "M = nat \<lceil>y\<rceil> - 1"
  define c where "c = bitLength M"
  have ceil2: "2 \<le> \<lceil>y\<rceil>" using y1 by linarith
  have M1: "0 < M" using ceil2 by (simp add: M_def)
  define k where "k = nat \<lceil>y\<rceil>"
  have k2: "2 \<le> k" using ceil2 unfolding k_def by linarith
  have "0 \<le> \<lceil>y\<rceil>" using ceil2 by linarith
  then have kk: "real_of_int \<lceil>y\<rceil> = real k" unfolding k_def by (rule of_nat_nat [symmetric])
  have "real (k - 1) = real k - 1" using k2 by (simp add: of_nat_diff)
  then have MM: "real M = of_int \<lceil>y\<rceil> - 1"
    by (simp add: M_def k_def [symmetric] kk)
  have Mlt: "real M < y" and yle: "y \<le> real M + 1"
    unfolding MM by linarith+
  from bitLength_bounds [OF M1] have lo: "2 ^ (c - 1) \<le> M" and hi: "M < 2 ^ c"
    by (simp_all add: c_def)
  have cpos: "0 < c" using hi M1 by (cases c) auto
  have e: "exponent x = - int c"
    using False by (simp add: exponent_def M_def c_def y_def a_def)
  have e1: "exponent x + 1 = - int (c - 1)" using e cpos by simp
  have "Suc M \<le> 2 ^ c" using hi by simp
  then have "real (Suc M) \<le> real (2 ^ c)" by (rule of_nat_mono)
  then have r2: "real M + 1 \<le> 2 ^ c" by simp
  with yle have "y \<le> 2 ^ c" by linarith
  then have "1 / a \<le> 2 ^ c" by (simp only: y_def)
  then have "1 \<le> 2 ^ c * a" using pos by (simp add: pos_divide_le_eq)
  then have A': "1 / 2 ^ c \<le> a" by (simp add: pos_divide_le_eq mult.commute)
  have "2 powi exponent x = 1 / (2::real) ^ c"
    by (simp only: e power_int_minus_divide power_int_of_nat)
  with A' have A: "2 powi exponent x \<le> \<bar>x\<bar>" by (simp add: a_def)
  have "real (2 ^ (c - 1)) \<le> real M" using lo by (rule of_nat_mono)
  then have r1: "(2::real) ^ (c - 1) \<le> real M" by simp
  with Mlt have "2 ^ (c - 1) < y" by linarith
  then have "2 ^ (c - 1) < 1 / a" by (simp only: y_def)
  then have "2 ^ (c - 1) * a < 1" using pos by (simp add: pos_less_divide_eq)
  then have B': "a < 1 / 2 ^ (c - 1)" by (simp add: pos_less_divide_eq mult.commute)
  have "2 powi (exponent x + 1) = 1 / (2::real) ^ (c - 1)"
    by (simp only: e1 power_int_minus_divide power_int_of_nat)
  with B' have B: "\<bar>x\<bar> < 2 powi (exponent x + 1)" by (simp add: a_def)
  from A B show ?thesis by blast
qed

lemma pow2_less_cancel:
  assumes "(2::real) powi e < 2 powi f"
  shows "e < f"
proof (rule ccontr)
  assume "\<not> e < f"
  then have "f \<le> e" by simp
  then have "(2::real) powi f \<le> 2 powi e" by (intro power_int_increasing) simp_all
  with assms show False by simp
qed

lemma exponent_unique:
  assumes "2 powi e \<le> \<bar>x\<bar>" "\<bar>x\<bar> < 2 powi (e + 1)"
  shows "exponent x = e"
proof -
  have "0 < (2::real) powi e" by simp
  with assms(1) have "0 < \<bar>x\<bar>" by linarith
  then have "x \<noteq> 0" by simp
  from exponent_bounds [OF this]
  have lo: "2 powi exponent x \<le> \<bar>x\<bar>" and hi: "\<bar>x\<bar> < 2 powi (exponent x + 1)" by auto
  have "(2::real) powi e < 2 powi (exponent x + 1)" using assms(1) hi by simp
  then have "e < exponent x + 1" by (rule pow2_less_cancel)
  moreover have "(2::real) powi exponent x < 2 powi (e + 1)" using lo assms(2) by simp
  then have "exponent x < e + 1" by (rule pow2_less_cancel)
  ultimately show ?thesis by simp
qed


lemma roundEven_floor: "\<lfloor>y\<rfloor> \<le> roundEven y \<and> roundEven y \<le> \<lfloor>y\<rfloor> + 1"
  by (simp add: roundEven_def Let_def)

lemma roundEven_error: "\<bar>of_int (roundEven y) - y\<bar> \<le> 1 / 2"
proof -
  have "of_int \<lfloor>y\<rfloor> \<le> y" "y < of_int \<lfloor>y\<rfloor> + 1" by linarith+
  then show ?thesis by (auto simp: roundEven_def Let_def)
qed

lemma roundEven_of_int: "roundEven (of_int n) = n"
  by (simp add: roundEven_def)

lemma roundEven_near:
  assumes "\<bar>of_int n - y\<bar> < 1 / 2"
  shows "roundEven y = n"
proof -
  have fl: "of_int \<lfloor>y\<rfloor> \<le> y" "y < of_int \<lfloor>y\<rfloor> + 1" by linarith+
  show ?thesis
  proof (cases "of_int n \<le> y")
    case True
    with assms have "of_int n \<le> y" "y < of_int n + 1" by linarith+
    then have f: "\<lfloor>y\<rfloor> = n" by (simp add: floor_unique)
    with assms True show ?thesis by (simp add: roundEven_def Let_def)
  next
    case False
    with assms have "of_int (n - 1) \<le> y" "y < of_int (n - 1) + 1" by simp_all
    then have f: "\<lfloor>y\<rfloor> = n - 1" by (rule floor_unique)
    have "1 / 2 < y - of_int (n - 1)" using assms False by simp
    then show ?thesis unfolding roundEven_def Let_def f by simp
  qed
qed

lemma roundEven_mono:
  assumes "y \<le> z"
  shows "roundEven y \<le> roundEven z"
proof (cases "\<lfloor>y\<rfloor> = \<lfloor>z\<rfloor>")
  case True
  with assms show ?thesis by (auto simp: roundEven_def Let_def)
next
  case False
  moreover have "\<lfloor>y\<rfloor> \<le> \<lfloor>z\<rfloor>" using assms by (rule floor_mono)
  ultimately have "\<lfloor>y\<rfloor> + 1 \<le> \<lfloor>z\<rfloor>" by simp
  with roundEven_floor [of y] roundEven_floor [of z] show ?thesis by linarith
qed

lemma roundEven_shift: "roundEven (y + of_int (2 * n)) = roundEven y + 2 * n"
proof -
  have "\<lfloor>y + of_int (2 * n)\<rfloor> = \<lfloor>y\<rfloor> + 2 * n"
    by (simp only: floor_add_int)
  then have f: "\<lfloor>y + of_int (2 * n)\<rfloor> = \<lfloor>y\<rfloor> + 2 * n" .
  show ?thesis unfolding roundEven_def Let_def f by simp
qed

lemma roundTo_error:
  assumes "0 < q"
  shows "\<bar>roundTo q x - x\<bar> \<le> q / 2"
proof -
  have "roundTo q x - x = (of_int (roundEven (x / q)) - x / q) * q"
    using assms by (simp add: roundTo_def algebra_simps)
  then have "\<bar>roundTo q x - x\<bar> = \<bar>of_int (roundEven (x / q)) - x / q\<bar> * q"
    using assms by (simp add: abs_mult)
  also have "\<dots> \<le> (1 / 2) * q"
    using assms roundEven_error [of "x / q"] by (intro mult_right_mono) simp_all
  finally show ?thesis by simp
qed

lemma roundTo_mono:
  assumes "0 < q" "x \<le> y"
  shows "roundTo q x \<le> roundTo q y"
proof -
  have "x / q \<le> y / q" using assms by (simp add: divide_right_mono)
  then have "roundEven (x / q) \<le> roundEven (y / q)" by (rule roundEven_mono)
  then have "real_of_int (roundEven (x / q)) \<le> real_of_int (roundEven (y / q))" by simp
  then show ?thesis unfolding roundTo_def using assms(1) by (intro mult_right_mono) simp_all
qed

lemma roundTo_grid:
  assumes "0 < q"
  shows "roundTo q (of_int n * q) = of_int n * q"
  using assms by (simp add: roundTo_def roundEven_of_int)

lemma roundTo_near:
  assumes "0 < q" "\<bar>of_int n * q - x\<bar> < q / 2"
  shows "roundTo q x = of_int n * q"
proof -
  have "of_int n - x / q = (of_int n * q - x) / q" using assms(1) by (simp add: field_simps)
  then have "\<bar>of_int n - x / q\<bar> = \<bar>of_int n * q - x\<bar> / q"
    using assms(1) by simp
  also have "\<dots> < (q / 2) / q" using assms by (intro divide_strict_right_mono) simp_all
  finally have "\<bar>of_int n - x / q\<bar> < 1 / 2" using assms(1) by simp
  then have "roundEven (x / q) = n" by (rule roundEven_near)
  then show ?thesis by (simp add: roundTo_def)
qed

lemma roundTo_shift:
  assumes "0 < q"
  shows "roundTo q (x + of_int (2 * n) * q) = roundTo q x + of_int (2 * n) * q"
proof -
  have "(x + of_int (2 * n) * q) / q = x / q + of_int (2 * n)"
    using assms by (simp add: field_simps)
  then show ?thesis
    unfolding roundTo_def by (simp only: roundEven_shift) (simp add: algebra_simps)
qed


lemma ulp_pos: "0 < ulp x"
  by (simp add: ulp_def)

lemma pow2_split: "(2::real) powi (j + k) = 2 powi j * 2 powi k"
  by (simp add: power_int_add)

lemma pow2_ulp: "(2::real) powi (exponent x + m) = 2 powi (52 + m) * ulp x"
proof -
  have "exponent x + m = (52 + m) + (exponent x - 52)" by simp
  then have "(2::real) powi (exponent x + m) = 2 powi ((52 + m) + (exponent x - 52))"
    by (rule arg_cong)
  also have "\<dots> = 2 powi (52 + m) * 2 powi (exponent x - 52)" by (rule pow2_split)
  finally show ?thesis by (simp only: ulp_def)
qed

lemma ulp_bounds:
  assumes "x \<noteq> 0"
  shows "2 ^ 52 * ulp x \<le> \<bar>x\<bar>" and "\<bar>x\<bar> < 2 ^ 53 * ulp x"
proof -
  have a: "(2::real) powi exponent x = 2 ^ 52 * ulp x"
    using pow2_ulp [of x 0] by simp
  have b: "(2::real) powi (exponent x + 1) = 2 ^ 53 * ulp x"
    using pow2_ulp [of x 1] by simp
  from exponent_bounds [OF assms] show "2 ^ 52 * ulp x \<le> \<bar>x\<bar>" by (simp only: a)
  from exponent_bounds [OF assms] show "\<bar>x\<bar> < 2 ^ 53 * ulp x" by (simp only: b)
qed

lemma roundDouble_error: "\<bar>roundDouble x - x\<bar> \<le> ulp x / 2"
proof (cases "x = 0")
  case True
  then show ?thesis using ulp_pos [of x] by (simp add: roundDouble_def)
next
  case False
  then show ?thesis using roundTo_error [OF ulp_pos, of x x] by (simp add: roundDouble_def)
qed

lemma roundDouble_relative: "\<bar>roundDouble x - x\<bar> \<le> \<bar>x\<bar> / 2 ^ 53"
proof (cases "x = 0")
  case True
  then show ?thesis by (simp add: roundDouble_def)
next
  case False
  from ulp_bounds(1) [OF False] have "ulp x / 2 \<le> \<bar>x\<bar> / 2 ^ 53" by simp
  with roundDouble_error [of x] show ?thesis by linarith
qed

lemma exponent_mono:
  assumes "0 < x" "x \<le> y"
  shows "exponent x \<le> exponent y"
proof -
  have "x \<noteq> 0" "y \<noteq> 0" using assms by auto
  from exponent_bounds [OF this(1)] exponent_bounds [OF this(2)] assms
  have "(2::real) powi exponent x < 2 powi (exponent y + 1)" by simp
  then have "exponent x < exponent y + 1" by (rule pow2_less_cancel)
  then show ?thesis by simp
qed

lemma roundDouble_binade:
  assumes "0 < x"
  shows "2 powi exponent x \<le> roundDouble x" and "roundDouble x \<le> 2 powi (exponent x + 1)"
proof -
  have nz: "x \<noteq> 0" using assms by simp
  have a: "(2::real) powi exponent x = of_int (2 ^ 52) * ulp x"
    using pow2_ulp [of x 0] by simp
  have b: "(2::real) powi (exponent x + 1) = of_int (2 ^ 53) * ulp x"
    using pow2_ulp [of x 1] by simp
  from exponent_bounds [OF nz] assms
  have lo: "2 powi exponent x \<le> x" and hi: "x \<le> 2 powi (exponent x + 1)" by simp_all
  have "roundTo (ulp x) (of_int (2 ^ 52) * ulp x) \<le> roundTo (ulp x) x"
    using lo unfolding a by (rule roundTo_mono [OF ulp_pos])
  then show "2 powi exponent x \<le> roundDouble x"
    using nz by (simp only: roundTo_grid [OF ulp_pos] a roundDouble_def if_False)
  have "roundTo (ulp x) x \<le> roundTo (ulp x) (of_int (2 ^ 53) * ulp x)"
    using hi unfolding b by (rule roundTo_mono [OF ulp_pos])
  then show "roundDouble x \<le> 2 powi (exponent x + 1)"
    using nz by (simp only: roundTo_grid [OF ulp_pos] b roundDouble_def if_False)
qed

lemma roundDouble_mono:
  assumes "0 \<le> x" "x \<le> y"
  shows "roundDouble x \<le> roundDouble y"
proof (cases "x = 0")
  case True
  show ?thesis
  proof (cases "y = 0")
    case True
    with \<open>x = 0\<close> show ?thesis by simp
  next
    case False
    with assms have "0 < y" by simp
    from roundDouble_binade(1) [OF this] have "0 < roundDouble y"
      using zero_less_power_int [of "2::real" "exponent y"] by linarith
    with True show ?thesis by (simp add: roundDouble_def)
  qed
next
  case False
  with assms have px: "0 < x" and py: "0 < y" by simp_all
  show ?thesis
  proof (cases "exponent x = exponent y")
    case True
    then have "ulp x = ulp y" by (simp add: ulp_def)
    with roundTo_mono [OF ulp_pos assms(2), of x] px py show ?thesis
      by (simp add: roundDouble_def)
  next
    case False
    with exponent_mono [OF px assms(2)] have "exponent x + 1 \<le> exponent y" by simp
    then have "(2::real) powi (exponent x + 1) \<le> 2 powi exponent y"
      by (intro power_int_increasing) simp_all
    with roundDouble_binade(2) [OF px] roundDouble_binade(1) [OF py] show ?thesis by linarith
  qed
qed

lemma roundDouble_exact:
  assumes "x = of_int k * 2 powi j" "exponent x - 52 \<le> j"
  shows "roundDouble x = x"
proof (cases "x = 0")
  case True
  then show ?thesis by (simp add: roundDouble_def)
next
  case False
  define d where "d = nat (j - (exponent x - 52))"
  have j: "j = int d + (exponent x - 52)" using assms(2) by (simp add: d_def)
  have "(2::real) powi j = 2 powi (int d) * 2 powi (exponent x - 52)"
    by (subst j) (rule pow2_split)
  then have "x = of_int (k * 2 ^ d) * ulp x"
    using assms(1) by (simp add: ulp_def)
  then have "roundTo (ulp x) x = roundTo (ulp x) (of_int (k * 2 ^ d) * ulp x)" by simp
  also have "\<dots> = of_int (k * 2 ^ d) * ulp x" by (rule roundTo_grid [OF ulp_pos])
  also have "\<dots> = x" using \<open>x = of_int (k * 2 ^ d) * ulp x\<close> by simp
  finally show ?thesis using False by (simp add: roundDouble_def)
qed

lemma roundDouble_of_int:
  assumes "\<bar>n\<bar> < 2 ^ 53"
  shows "roundDouble (of_int n) = of_int n"
proof (cases "n = 0")
  case True
  then show ?thesis by (simp add: roundDouble_def)
next
  case False
  then have nz: "real_of_int n \<noteq> 0" by simp
  have "real_of_int \<bar>n\<bar> < real_of_int (2 ^ 53)" using assms by (simp only: of_int_less_iff)
  then have "\<bar>real_of_int n\<bar> < 2 powi 53" by simp
  with exponent_bounds [OF nz] have "(2::real) powi exponent (of_int n) < 2 powi 53" by linarith
  then have "exponent (of_int n) < 53" by (rule pow2_less_cancel)
  then have "exponent (real_of_int n) - 52 \<le> 0" by simp
  moreover have "real_of_int n = of_int n * 2 powi 0" by simp
  ultimately show ?thesis by (rule roundDouble_exact [rotated])
qed


lemma roundEven_zero: "roundEven 0 = 0"
  by (simp add: roundEven_def)

lemma roundEven_abs_bounds:
  assumes "of_int a \<le> \<bar>y\<bar>" "\<bar>y\<bar> \<le> of_int b"
  shows "a \<le> \<bar>roundEven y\<bar> \<and> \<bar>roundEven y\<bar> \<le> b"
proof (cases "0 \<le> y")
  case True
  with assms have "of_int a \<le> y" "y \<le> of_int b" by simp_all
  from roundEven_mono [OF this(1)] roundEven_mono [OF this(2)]
  have "a \<le> roundEven y" "roundEven y \<le> b" by (simp_all add: roundEven_of_int)
  moreover have "0 \<le> roundEven y"
    using True roundEven_mono [of 0 y] by (simp add: roundEven_zero)
  ultimately show ?thesis by linarith
next
  case False
  with assms have "y \<le> of_int (- a)" "of_int (- b) \<le> y" by simp_all
  from roundEven_mono [OF this(1)] roundEven_mono [OF this(2)]
  have "roundEven y \<le> - a" "- b \<le> roundEven y" by (simp_all only: roundEven_of_int)
  moreover have "y < 0" using False by simp
  then have "roundEven y \<le> 0"
    using roundEven_mono [of y 0] by (simp add: roundEven_zero)
  ultimately show ?thesis by linarith
qed

lemma roundDouble_idem: "roundDouble (roundDouble x) = roundDouble x"
proof (cases "x = 0")
  case True
  then show ?thesis by (simp add: roundDouble_def)
next
  case False
  define q where "q = ulp x"
  define k where "k = roundEven (x / q)"
  have q: "0 < q" by (simp add: q_def ulp_pos)
  have r: "roundDouble x = of_int k * q" using False by (simp add: roundDouble_def roundTo_def q_def k_def)
  have ax: "\<bar>x / q\<bar> = \<bar>x\<bar> / q" using q by simp
  from ulp_bounds [OF False] q
  have "2 ^ 52 \<le> \<bar>x\<bar> / q" "\<bar>x\<bar> / q \<le> 2 ^ 53"
    by (simp_all add: q_def pos_le_divide_eq pos_divide_le_eq)
  then have "of_int (2 ^ 52) \<le> \<bar>x / q\<bar>" "\<bar>x / q\<bar> \<le> of_int (2 ^ 53)"
    by (simp_all only: ax of_int_power of_int_numeral)
  from roundEven_abs_bounds [OF this]
  have klo: "2 ^ 52 \<le> \<bar>k\<bar>" and khi: "\<bar>k\<bar> \<le> 2 ^ 53" by (simp_all add: k_def)
  have absr: "\<bar>roundDouble x\<bar> = of_int \<bar>k\<bar> * q" using q by (simp add: r abs_mult)
  have lo: "(2::real) powi exponent x = 2 ^ 52 * q" using pow2_ulp [of x 0] by (simp add: q_def)
  have hi: "(2::real) powi (exponent x + 1) = 2 ^ 53 * q" using pow2_ulp [of x 1] by (simp add: q_def)
  have hi2: "(2::real) powi (exponent x + 2) = 2 ^ 54 * q"
    using pow2_ulp [of x 2] by (simp add: q_def)
  have two: "exponent x + 1 + 1 = exponent x + 2" by simp
  show ?thesis
  proof (cases "\<bar>k\<bar> = 2 ^ 53")
    case True
    have e: "exponent (roundDouble x) = exponent x + 1"
    proof (rule exponent_unique)
      show "2 powi (exponent x + 1) \<le> \<bar>roundDouble x\<bar>"
        unfolding hi absr True by simp
      show "\<bar>roundDouble x\<bar> < 2 powi (exponent x + 1 + 1)"
        unfolding two hi2 absr True using q by simp
    qed
    have "k = sgn k * \<bar>k\<bar>" by (simp add: sgn_mult_abs)
    then have "real_of_int k = of_int (sgn k) * 2 ^ 53" by (simp add: True)
    then have "roundDouble x = of_int (sgn k) * (2 ^ 53 * q)" by (simp add: r)
    then have "roundDouble x = of_int (sgn k) * 2 powi (exponent x + 1)" by (simp only: hi)
    moreover have "exponent (roundDouble x) - 52 \<le> exponent x + 1" by (simp add: e)
    ultimately show ?thesis by (rule roundDouble_exact)
  next
    case False
    with khi have "\<bar>k\<bar> < 2 ^ 53" by simp
    then have "real_of_int \<bar>k\<bar> < real_of_int (2 ^ 53)" by (simp only: of_int_less_iff)
    then have k1: "real_of_int \<bar>k\<bar> < 2 ^ 53" by simp
    have "real_of_int (2 ^ 52) \<le> real_of_int \<bar>k\<bar>" using klo by (simp only: of_int_le_iff)
    then have k0: "2 ^ 52 \<le> real_of_int \<bar>k\<bar>" by simp
    have e: "exponent (roundDouble x) = exponent x"
    proof (rule exponent_unique)
      show "2 powi exponent x \<le> \<bar>roundDouble x\<bar>"
        unfolding absr lo using k0 q by (intro mult_right_mono) simp_all
      show "\<bar>roundDouble x\<bar> < 2 powi (exponent x + 1)"
        unfolding absr hi using k1 q by (intro mult_strict_right_mono) simp_all
    qed
    have "roundDouble x = of_int k * 2 powi (exponent x - 52)"
      by (simp add: r q_def ulp_def)
    moreover have "exponent (roundDouble x) - 52 \<le> exponent x - 52" by (simp add: e)
    ultimately show ?thesis by (rule roundDouble_exact)
  qed
qed


lemma exponent_one: "exponent 1 = 0"
  by (rule exponent_unique) simp_all

lemma roundDouble_floor_step:
  assumes "0 \<le> x" "x + 1 < 2 ^ 52"
  shows "\<lfloor>roundDouble x\<rfloor> + 1 \<le> \<lfloor>roundDouble (x + 1)\<rfloor>"
proof -
  define e1 where "e1 = exponent (x + 1)"
  define q where "q = ulp (x + 1)"
  define n where "n = \<lfloor>roundDouble x\<rfloor>"
  have q: "0 < q" by (simp add: q_def ulp_pos)
  have x1: "x + 1 \<noteq> 0" using assms(1) by simp
  have "exponent 1 \<le> exponent (x + 1)" using assms(1) by (intro exponent_mono) simp_all
  then have e0: "0 \<le> e1" by (simp add: e1_def exponent_one)
  from exponent_bounds [OF x1] assms have "(2::real) powi e1 < 2 powi 52"
    by (simp add: e1_def)
  then have e52: "e1 < 52" by (rule pow2_less_cancel)
  define j where "j = nat (52 - e1) - 1"
  have j: "52 - e1 = int (Suc j)" using e52 by (simp add: j_def)
  have "0 = int (Suc j) + (e1 - 52)" using j by linarith
  then have "(2::real) powi 0 = 2 powi (int (Suc j) + (e1 - 52))" by (rule arg_cong)
  also have "\<dots> = 2 powi int (Suc j) * 2 powi (e1 - 52)" by (rule pow2_split)
  also have "(2::real) powi int (Suc j) = 2 * 2 ^ j" by (simp only: power_int_of_nat power_Suc)
  finally have "(2::real) powi 0 = 2 * 2 ^ j * q" by (simp only: q_def ulp_def e1_def)
  then have one: "1 = of_int (2 * 2 ^ j) * q" by simp
  have grid: "of_int m = of_int (m * (2 * 2 ^ j)) * q" for m :: int
  proof -
    have "real_of_int m = of_int m * 1" by simp
    also have "\<dots> = of_int m * (of_int (2 * 2 ^ j) * q)" by (simp only: one [symmetric])
    finally show ?thesis by (simp only: of_int_mult mult.assoc)
  qed
  have fixn: "roundTo q (of_int m) = of_int m" for m :: int
  proof -
    have "roundTo q (of_int m) = roundTo q (of_int (m * (2 * 2 ^ j)) * q)"
      using grid [of m] by (rule arg_cong)
    also have "\<dots> = of_int (m * (2 * 2 ^ j)) * q" by (rule roundTo_grid [OF q])
    also have "\<dots> = of_int m" by (rule grid [symmetric])
    finally show ?thesis .
  qed
  have nearn: "roundTo q y = of_int m" if "\<bar>of_int m - y\<bar> < q / 2" for m :: int and y
  proof -
    have "of_int m - y = of_int (m * (2 * 2 ^ j)) * q - y" using grid [of m] by simp
    with that have "\<bar>of_int (m * (2 * 2 ^ j)) * q - y\<bar> < q / 2" by simp
    from roundTo_near [OF q this] show ?thesis by (simp only: grid [symmetric])
  qed
  have "roundDouble (x + 1) = roundTo q (x + 1)" using x1 by (simp add: roundDouble_def q_def)
  also have "x + 1 = x + of_int (2 * 2 ^ j) * q" by (simp only: one [symmetric])
  also have "roundTo q \<dots> = roundTo q x + of_int (2 * 2 ^ j) * q" by (rule roundTo_shift [OF q])
  finally have step: "roundDouble (x + 1) = roundTo q x + 1" by (simp only: one [symmetric])
  have "of_int n \<le> roundTo q x"
  proof (cases "of_int n \<le> x")
    case True
    from roundTo_mono [OF q True] show ?thesis by (simp only: fixn)
  next
    case False
    then have xn: "x < of_int n" by simp
    have nr: "of_int n \<le> roundDouble x" by (simp add: n_def)
    have x0: "x \<noteq> 0"
    proof
      assume "x = 0"
      then have "n = 0" by (simp add: n_def roundDouble_def)
      with xn \<open>x = 0\<close> show False by simp
    qed
    with assms(1) have px: "0 < x" by simp
    have le: "exponent x \<le> e1" unfolding e1_def using px by (intro exponent_mono) simp_all
    show ?thesis
    proof (cases "exponent x = e1")
      case True
      then have "ulp x = q" by (simp add: ulp_def q_def e1_def)
      then have "roundDouble x = roundTo q x" using x0 by (simp add: roundDouble_def)
      with nr show ?thesis by simp
    next
      case False
      with le have "exponent x - 52 + 1 \<le> e1 - 52" by simp
      then have "(2::real) powi (exponent x - 52 + 1) \<le> 2 powi (e1 - 52)"
        by (intro power_int_increasing) simp_all
      moreover have "(2::real) powi (exponent x - 52 + 1) = 2 powi (exponent x - 52) * 2"
        using pow2_split [of "exponent x - 52" 1] by simp
      ultimately have half: "ulp x * 2 \<le> q" by (simp add: ulp_def q_def e1_def)
      from roundDouble_error [of x] nr xn have "of_int n - x \<le> ulp x / 2" by linarith
      with half q xn have "\<bar>of_int n - x\<bar> < q / 2" by simp
      from nearn [OF this] show ?thesis by simp
    qed
  qed
  then have "of_int (n + 1) \<le> roundDouble (x + 1)" by (simp add: step)
  then have "n + 1 \<le> \<lfloor>roundDouble (x + 1)\<rfloor>" by (simp only: le_floor_iff)
  then show ?thesis by (simp add: n_def)
qed

lemma roundDouble_nonneg: "0 \<le> x \<Longrightarrow> 0 \<le> roundDouble x"
  using roundDouble_mono [of 0 x] by (simp add: roundDouble_def)

lemma roundDouble_one: "roundDouble 1 = 1"
  using roundDouble_of_int [of 1] by simp

lemma roundDouble_upper:
  assumes "0 \<le> x"
  shows "roundDouble x \<le> x * (1 + 1 / 2 ^ 53)"
proof -
  have "roundDouble x - x \<le> \<bar>roundDouble x - x\<bar>" by simp
  also have "\<dots> \<le> \<bar>x\<bar> / 2 ^ 53" by (rule roundDouble_relative)
  also have "\<dots> = x / 2 ^ 53" using assms by simp
  finally have "roundDouble x \<le> x + x / 2 ^ 53" by linarith
  also have "\<dots> = x * (1 + 1 / 2 ^ 53)" by (simp only: distrib_left mult_1_right times_divide_eq_right)
  finally show ?thesis .
qed

lemma roundDouble_eval:
  assumes "2 powi e \<le> \<bar>x\<bar>" "\<bar>x\<bar> < 2 powi (e + 1)"
  shows "roundDouble x = of_int (roundEven (x / 2 powi (e - 52))) * 2 powi (e - 52)"
proof -
  have e: "exponent x = e" using assms by (rule exponent_unique)
  have "0 < (2::real) powi e" by simp
  with assms(1) have "0 < \<bar>x\<bar>" by linarith
  then have "x \<noteq> 0" by simp
  then show ?thesis by (simp add: roundDouble_def roundTo_def ulp_def e)
qed

lemma roundDouble_numeral:
  "(numeral k :: int) < 2 ^ 53 \<Longrightarrow> roundDouble (numeral k) = numeral k"
  "(numeral k :: int) < 2 ^ 53 \<Longrightarrow> roundDouble (- numeral k) = - numeral k"
  using roundDouble_of_int [of "numeral k"] roundDouble_of_int [of "- numeral k"]
  by simp_all

lemma roundDouble_zero: "roundDouble 0 = 0"
  by (simp add: roundDouble_def)

subsection \<open>Downsampling\<close>

lemma pushSamples_map:
  "pushSamples pts step m i acc =
     acc @ map (\<lambda>j. pts ! nat \<lfloor>jsMultiply (real j) step\<rfloor>) [i..<m]"
proof (induction pts step m i acc rule: pushSamples.induct)
  case (1 pts step maxPoints i downsampled)
  show ?case
  proof (cases "i < maxPoints")
    case True
    then show ?thesis
      using "1.IH" by (subst pushSamples.simps) (simp add: upt_conv_Cons)
  next
    case False
    then show ?thesis by (subst pushSamples.simps) simp
  qed
qed

lemma step_bounds:
  assumes "m < len" "0 < m"
  shows "1 \<le> jsDivide (real len) (real m)"
    and "jsDivide (real len) (real m) \<le> real len / real m * (1 + 1 / 2 ^ 53)"
proof -
  have q: "1 \<le> real len / real m" using assms by simp
  from roundDouble_mono [of 1 "real len / real m"] q
  show "1 \<le> jsDivide (real len) (real m)" by (simp add: jsDivide_def roundDouble_one)
  show "jsDivide (real len) (real m) \<le> real len / real m * (1 + 1 / 2 ^ 53)"
    unfolding jsDivide_def by (rule roundDouble_upper) simp
qed

lemma product_bound:
  assumes "m < len" "0 < m" "i \<le> m" "len < 2 ^ 32"
  shows "real i * jsDivide (real len) (real m) < 2 ^ 34"
proof -
  define s where "s = jsDivide (real len) (real m)"
  have s1: "1 \<le> s" and s2: "s \<le> real len / real m * (1 + 1 / 2 ^ 53)"
    using step_bounds [OF assms(1,2)] by (simp_all add: s_def)
  have "real len / real m * (1 + 1 / 2 ^ 53) \<le> real len / real m * 2"
    using assms by (intro mult_left_mono) simp_all
  with s2 have s3: "s \<le> real len / real m * 2" by linarith
  have "real i * s \<le> real m * s" using assms(3) s1 by (intro mult_right_mono) simp_all
  also have "\<dots> \<le> real m * (real len / real m * 2)"
    using s3 by (intro mult_left_mono) simp_all
  also have "\<dots> = real len * 2" using assms(2) by simp
  also have "\<dots> < 2 ^ 34"
  proof -
    have "real len < real (2 ^ 32)" using assms(4) by (simp only: of_nat_less_iff)
    then show ?thesis by simp
  qed
  finally show ?thesis by (simp add: s_def)
qed

lemma strideIndex_step:
  assumes "m < len" "0 < m" "Suc i \<le> m" "len < 2 ^ 32"
  shows "strideIndex len m i < strideIndex len m (Suc i)"
proof -
  define s where "s = jsDivide (real len) (real m)"
  define A where "A = real i * s"
  have s1: "1 \<le> s" using step_bounds(1) [OF assms(1,2)] by (simp add: s_def)
  have A0: "0 \<le> A" using s1 by (simp add: A_def)
  have "i \<le> m" using assms(3) by simp
  from product_bound [OF assms(1,2) this assms(4)] have "A < 2 ^ 34" by (simp add: A_def s_def)
  then have A52: "A + 1 < 2 ^ 52" by simp
  have "real (Suc i) * s = A + s" by (simp add: A_def algebra_simps)
  with s1 have "A + 1 \<le> real (Suc i) * s" by simp
  with A0 have "roundDouble (A + 1) \<le> roundDouble (real (Suc i) * s)"
    by (intro roundDouble_mono) simp_all
  then have "\<lfloor>roundDouble (A + 1)\<rfloor> \<le> \<lfloor>roundDouble (real (Suc i) * s)\<rfloor>" by (rule floor_mono)
  with roundDouble_floor_step [OF A0 A52]
  have "\<lfloor>roundDouble A\<rfloor> + 1 \<le> \<lfloor>roundDouble (real (Suc i) * s)\<rfloor>" by linarith
  moreover have "0 \<le> \<lfloor>roundDouble A\<rfloor>" using roundDouble_nonneg [OF A0] by simp
  ultimately have "nat \<lfloor>roundDouble A\<rfloor> < nat \<lfloor>roundDouble (real (Suc i) * s)\<rfloor>" by linarith
  then show ?thesis by (simp only: strideIndex_def jsMultiply_def s_def A_def)
qed

lemma strideIndex_mono:
  assumes "m < len" "0 < m" "len < 2 ^ 32" "i < j" "j \<le> m"
  shows "strideIndex len m i < strideIndex len m j"
  using assms(4,5)
proof (induction j)
  case 0
  then show ?case by simp
next
  case (Suc j)
  have step: "strideIndex len m j < strideIndex len m (Suc j)"
    using Suc.prems(2) by (intro strideIndex_step assms(1,2,3))
  show ?case
  proof (cases "i = j")
    case True
    with step show ?thesis by simp
  next
    case False
    with Suc.prems have "i < j" "j \<le> m" by simp_all
    then have "strideIndex len m i < strideIndex len m j" by (rule Suc.IH)
    with step show ?thesis by simp
  qed
qed

lemma strideIndex_in_range:
  assumes "m < len" "i < m" "len < 2 ^ 32"
  shows "strideIndex len m i < len"
proof -
  define s where "s = jsDivide (real len) (real m)"
  define u :: real where "u = 1 / 2 ^ 53"
  have m0: "0 < m" using assms(2) by simp
  have s1: "1 \<le> s" and s2: "s \<le> real len / real m * (1 + u)"
    using step_bounds [OF assms(1) m0] by (simp_all add: s_def u_def)
  have A0: "0 \<le> real i * s" using s1 by simp
  have "real i \<le> real m - 1" using assms(2) by linarith
  then have "real i * s \<le> (real m - 1) * s" using s1 by (intro mult_right_mono) simp_all
  also have "\<dots> \<le> (real m - 1) * (real len / real m * (1 + u))"
    using s2 m0 by (intro mult_left_mono) simp_all
  finally have A1: "real i * s \<le> (real m - 1) * (real len / real m * (1 + u))" .
  have "roundDouble (real i * s) \<le> real i * s * (1 + u)"
    unfolding u_def by (rule roundDouble_upper [OF A0])
  also have "\<dots> \<le> (real m - 1) * (real len / real m * (1 + u)) * (1 + u)"
    using A1 by (intro mult_right_mono) (simp_all add: u_def)
  also have "\<dots> = real len * ((real m - 1) * ((1 + u) * (1 + u)) / real m)"
    by (simp add: algebra_simps)
  also have "\<dots> < real len * 1"
  proof (intro mult_strict_left_mono)
    have "m < 2 ^ 32" using assms(1,3) by simp
    then have "real m < real (2 ^ 32)" by (simp only: of_nat_less_iff)
    then have m32: "real m < 2 ^ 32" by simp
    have uu: "(1 + u) * (1 + u) \<le> 1 + 3 * u" by (simp add: u_def)
    have "(real m - 1) * ((1 + u) * (1 + u)) \<le> (real m - 1) * (1 + 3 * u)"
      using uu m0 by (intro mult_left_mono) simp_all
    also have "\<dots> < real m" using m32 m0 by (simp add: u_def algebra_simps)
    finally show "(real m - 1) * ((1 + u) * (1 + u)) / real m < 1" using m0 by simp
    show "0 < real len" using assms(1) by simp
  qed
  finally have "roundDouble (real i * s) < real len" by simp
  then have "\<lfloor>roundDouble (real i * s)\<rfloor> < int len" by (simp add: floor_less_iff)
  with assms(1) have "nat \<lfloor>roundDouble (real i * s)\<rfloor> < len" by linarith
  then show ?thesis by (simp only: strideIndex_def jsMultiply_def s_def)
qed


lemma strideIndex_near:
  assumes "m < len" "i < m" "len < 2 ^ 32"
  shows "\<bar>int (strideIndex len m i) - \<lfloor>real i * real len / real m\<rfloor>\<bar> \<le> 1"
proof -
  define s where "s = jsDivide (real len) (real m)"
  define x where "x = real i * real len / real m"
  define A where "A = real i * s"
  define u :: real where "u = 1 / 2 ^ 53"
  have m0: "0 < m" using assms(2) by simp
  have s1: "1 \<le> s" using step_bounds(1) [OF assms(1) m0] by (simp add: s_def)
  have x0: "0 \<le> x" by (simp add: x_def)
  have A0: "0 \<le> A" using s1 by (simp add: A_def)
  have "real i * real len \<le> real m * real len" using assms(2) by (intro mult_right_mono) simp_all
  then have "x \<le> real len" using m0 by (simp add: x_def pos_divide_le_eq mult.commute)
  moreover have "len < 2 ^ 32 \<Longrightarrow> real len < real (2 ^ 32)" by (simp only: of_nat_less_iff)
  ultimately have x32: "x < 2 ^ 32" using assms(3) by simp
  have "\<bar>s - real len / real m\<bar> \<le> \<bar>real len / real m\<bar> / 2 ^ 53"
    unfolding s_def jsDivide_def by (rule roundDouble_relative)
  then have sd: "\<bar>s - real len / real m\<bar> \<le> real len / real m * u" by (simp add: u_def)
  have "A - x = real i * (s - real len / real m)" by (simp add: A_def x_def algebra_simps)
  then have "\<bar>A - x\<bar> = real i * \<bar>s - real len / real m\<bar>" by (simp add: abs_mult)
  also have "\<dots> \<le> real i * (real len / real m * u)" using sd by (intro mult_left_mono) simp_all
  also have "\<dots> = x * u" by (simp add: x_def)
  finally have Ax: "\<bar>A - x\<bar> \<le> x * u" .
  have "\<bar>roundDouble A - A\<bar> \<le> \<bar>A\<bar> / 2 ^ 53" by (rule roundDouble_relative)
  then have rA: "\<bar>roundDouble A - A\<bar> \<le> A * u" using A0 by (simp add: u_def)
  have "x * u \<le> x" using x0 by (simp add: u_def mult_left_le)
  with Ax have "A \<le> 2 * x" by linarith
  then have "A * u \<le> 2 * x * u" by (intro mult_right_mono) (simp_all add: u_def)
  with rA Ax have "\<bar>roundDouble A - x\<bar> \<le> 3 * x * u" by linarith
  also have "\<dots> < 1" using x32 by (simp add: u_def)
  finally have close: "\<bar>roundDouble A - x\<bar> < 1" .
  have r0: "0 \<le> \<lfloor>roundDouble A\<rfloor>" using roundDouble_nonneg [OF A0] by simp
  have "\<bar>\<lfloor>roundDouble A\<rfloor> - \<lfloor>x\<rfloor>\<bar> \<le> 1" using close by linarith
  with r0 have "\<bar>int (nat \<lfloor>roundDouble A\<rfloor>) - \<lfloor>x\<rfloor>\<bar> \<le> 1" by simp
  then show ?thesis by (simp only: strideIndex_def jsMultiply_def s_def A_def x_def times_divide_eq_right)
qed

lemma downsampleTrack_long:
  assumes "m < length pts"
  shows "downsampleTrack pts m =
     (let ds = map (\<lambda>i. pts ! strideIndex (length pts) m i) [0..<m]
      in if ds = [] \<or> last ds \<noteq> last pts then ds @ [last pts] else ds)"
  using assms by (simp add: downsampleTrack_def pushSamples_map strideIndex_def Let_def)

lemma downsampleTrack_short: "length pts \<le> m \<Longrightarrow> downsampleTrack pts m = pts"
  by (simp add: downsampleTrack_def)

lemma downsampleTrack_length: "length (downsampleTrack pts m) \<le> m + 1"
proof (cases "length pts \<le> m")
  case True
  then show ?thesis by (simp add: downsampleTrack_short)
next
  case False
  then have "m < length pts" by simp
  then show ?thesis by (simp add: downsampleTrack_long Let_def)
qed

lemma downsampleTrack_last:
  assumes "pts \<noteq> []"
  shows "last (downsampleTrack pts m) = last pts \<and> downsampleTrack pts m \<noteq> []"
proof (cases "length pts \<le> m")
  case True
  then show ?thesis using assms by (simp add: downsampleTrack_short)
next
  case False
  then have "m < length pts" by simp
  then show ?thesis by (auto simp: downsampleTrack_long Let_def)
qed

lemma downsampleTrack_nth:
  assumes "m < length pts" "i < m"
  shows "downsampleTrack pts m ! i = pts ! strideIndex (length pts) m i"
  using assms by (simp add: downsampleTrack_long Let_def nth_append)

lemma strideIndices_sorted:
  assumes "m < len" "0 < m" "len < 2 ^ 32"
  shows "sorted_wrt (<) (map (strideIndex len m) [0..<m])"
proof -
  have "sorted_wrt (\<lambda>i j. strideIndex len m i < strideIndex len m j) [0..<m]"
    by (rule sorted_wrt_mono_rel [where P = "(<)"])
       (simp_all add: strideIndex_mono [OF assms])
  then show ?thesis by (simp only: sorted_wrt_map)
qed

lemma downsampleTrack_indices:
  assumes "length pts < 2 ^ 32"
  shows "\<exists>idxs. sorted_wrt (<) idxs \<and> (\<forall>j\<in>set idxs. j < length pts) \<and>
          downsampleTrack pts m = map (\<lambda>j. pts ! j) idxs"
proof (cases "length pts \<le> m")
  case True
  have "sorted_wrt (<) [0..<length pts]" by simp
  moreover have "\<forall>j\<in>set [0..<length pts]. j < length pts" by simp
  moreover have "downsampleTrack pts m = map (\<lambda>j. pts ! j) [0..<length pts]"
    using True by (simp add: downsampleTrack_def map_nth)
  ultimately show ?thesis by blast
next
  case False
  then have long: "m < length pts" by simp
  then have ne: "pts \<noteq> []" by auto
  define base where "base = map (strideIndex (length pts) m) [0..<m]"
  define ds where "ds = map (\<lambda>i. pts ! strideIndex (length pts) m i) [0..<m]"
  have ds_base: "ds = map (\<lambda>j. pts ! j) base"
    by (simp add: ds_def base_def comp_def)
  have base_lt: "\<forall>j\<in>set base. j < length pts"
    using strideIndex_in_range [OF long _ assms] by (auto simp: base_def)
  have base_sorted: "sorted_wrt (<) base"
  proof (cases "m = 0")
    case True
    then show ?thesis by (simp add: base_def)
  next
    case False
    then show ?thesis unfolding base_def using strideIndices_sorted [OF long _ assms] by simp
  qed
  have ds_eq: "downsampleTrack pts m =
      (if ds = [] \<or> last ds \<noteq> last pts then ds @ [last pts] else ds)"
    using downsampleTrack_long [OF long] by (simp add: ds_def Let_def)
  show ?thesis
  proof (cases "ds = [] \<or> last ds \<noteq> last pts")
    case True
    let ?idxs = "base @ [length pts - 1]"
    have below: "j < length pts - 1" if j: "j \<in> set base" for j
    proof -
      from j have bne: "base \<noteq> []" by auto
      then have dne: "ds \<noteq> []" by (simp add: ds_base)
      with True have diff: "last ds \<noteq> last pts" by simp
      have "last ds = pts ! last base" using bne by (simp add: ds_base last_map)
      with diff ne have "last base \<noteq> length pts - 1" by (auto simp: last_conv_nth)
      moreover have "last base < length pts" using base_lt bne by simp
      ultimately have lb: "last base < length pts - 1" by simp
      from j obtain k where k: "k < length base" "base ! k = j" by (auto simp: in_set_conv_nth)
      have "j \<le> last base"
      proof (cases "k = length base - 1")
        case True
        with k bne show ?thesis by (simp add: last_conv_nth)
      next
        case False
        with k have "k < length base - 1" by simp
        moreover have "length base - 1 < length base" using bne by simp
        ultimately have "base ! k < base ! (length base - 1)"
          by (rule sorted_wrt_nth_less [OF base_sorted])
        with k bne show ?thesis by (simp add: last_conv_nth)
      qed
      with lb show ?thesis by simp
    qed
    have "sorted_wrt (<) ?idxs"
      using base_sorted below by (auto simp: sorted_wrt_append)
    moreover have "\<forall>j\<in>set ?idxs. j < length pts"
      using base_lt ne by auto
    moreover have "downsampleTrack pts m = map (\<lambda>j. pts ! j) ?idxs"
      using True ne by (simp add: ds_eq ds_base last_conv_nth)
    ultimately show ?thesis by blast
  next
    case False
    have "downsampleTrack pts m = map (\<lambda>j. pts ! j) base"
      using False by (simp add: ds_eq ds_base)
    with base_lt base_sorted show ?thesis by blast
  qed
qed


lemma strideIndex_30_22_11: "strideIndex 30 22 11 = 14"
proof -
  have s: "roundDouble (30 / 22) = 6141272219141585 / 2 ^ 52"
    by (subst roundDouble_eval [where e = 0]) (simp_all add: roundEven_def)
  have p: "roundDouble (11 * (6141272219141585 / 2 ^ 52)) = 8444249301319679 / 2 ^ 49"
    by (subst roundDouble_eval [where e = 3]) (simp_all add: roundEven_def)
  show ?thesis
    unfolding strideIndex_def jsMultiply_def jsDivide_def
    by (simp only: of_nat_numeral s p) simp
qed

lemma strideIndex_1005_1000_200: "strideIndex 1005 1000 200 = 200"
proof -
  have s: "roundDouble (1005 / 1000) = 4526117625507348 / 2 ^ 52"
    by (subst roundDouble_eval [where e = 0]) (simp_all add: roundEven_def)
  have p: "roundDouble (200 * (4526117625507348 / 2 ^ 52)) = 7072058789855231 / 2 ^ 45"
    by (subst roundDouble_eval [where e = 7]) (simp_all add: roundEven_def)
  show ?thesis
    unfolding strideIndex_def jsMultiply_def jsDivide_def
    by (simp only: of_nat_numeral s p) simp
qed

text \<open>Against claim C3 as stated: for 30 points and \<open>maxPoints = 22\<close> the quotient
  \<open>30 / 22\<close> rounds down to a double, \<open>11 * step\<close> is \<open>14.999999999999998\<close>, and the
  element selected at \<open>i = 11\<close> is \<open>points[14]\<close>, while \<open>floor (11 * 30 / 22) = 15\<close>. With the
  default \<open>maxPoints = 1000\<close> and 1005 points the element at \<open>i = 200\<close> is \<open>points[200]\<close>,
  not \<open>points[201]\<close>.\<close>

theorem downsampleTrack_stride_counterexample:
  "downsampleTrack [0..<30] 22 ! 11 = 14
   \<and> [0..<30] ! nat \<lfloor>(11::real) * 30 / 22\<rfloor> = 15
   \<and> downsampleTrack [0..<1005] 1000 ! 200 = 200
   \<and> [0..<1005] ! nat \<lfloor>(200::real) * 1005 / 1000\<rfloor> = 201"
proof -
  have a: "downsampleTrack [0..<30] 22 ! 11 = [0..<30] ! strideIndex (length [0..<30]) 22 11"
    by (rule downsampleTrack_nth) simp_all
  have b: "downsampleTrack [0..<1005] 1000 ! 200 =
      [0..<1005] ! strideIndex (length [0..<1005]) 1000 200"
    by (rule downsampleTrack_nth) simp_all
  show ?thesis
    by (simp add: a b strideIndex_30_22_11 strideIndex_1005_1000_200 del: upt_Suc)
qed

text \<open>Claim C3, amended. For every array of points (fewer than \<open>2^32\<close> elements) and
  every \<open>maxPoints \<ge> 1\<close>, the result of \<open>downsampleTrack\<close> has at most \<open>maxPoints + 1\<close>
  elements and contains the last point of the input (for an input that has one); when the
  input is longer than \<open>maxPoints\<close>, the \<open>i\<close>-th element of the result, for
  \<open>i < maxPoints\<close>, is the input element at position \<open>Math.floor(i * step)\<close> as computed in
  doubles, a position inside the input that differs from \<open>floor (i * len / maxPoints)\<close> by
  at most one; when the input has at most \<open>maxPoints\<close> elements it is returned
  unchanged.\<close>

theorem downsampleTrack_spec:
  assumes "1 \<le> maxPoints" and "length pts < 2 ^ 32"
  shows "length (downsampleTrack pts maxPoints) \<le> maxPoints + 1
       \<and> (pts \<noteq> [] \<longrightarrow> last pts \<in> set (downsampleTrack pts maxPoints))
       \<and> (maxPoints < length pts \<longrightarrow>
            (\<forall>i<maxPoints.
               strideIndex (length pts) maxPoints i < length pts
               \<and> downsampleTrack pts maxPoints ! i =
                   pts ! strideIndex (length pts) maxPoints i
               \<and> \<bar>int (strideIndex (length pts) maxPoints i)
                    - \<lfloor>real i * real (length pts) / real maxPoints\<rfloor>\<bar> \<le> 1))
       \<and> (length pts \<le> maxPoints \<longrightarrow> downsampleTrack pts maxPoints = pts)"
proof (intro conjI impI allI)
  show "length (downsampleTrack pts maxPoints) \<le> maxPoints + 1"
    by (rule downsampleTrack_length)
next
  assume "pts \<noteq> []"
  from downsampleTrack_last [OF this, of maxPoints]
  show "last pts \<in> set (downsampleTrack pts maxPoints)"
    using last_in_set by metis
next
  fix i assume "maxPoints < length pts" "i < maxPoints"
  then show "strideIndex (length pts) maxPoints i < length pts"
    using assms(2) by (rule strideIndex_in_range)
next
  fix i assume "maxPoints < length pts" "i < maxPoints"
  then show "downsampleTrack pts maxPoints ! i = pts ! strideIndex (length pts) maxPoints i"
    by (rule downsampleTrack_nth)
next
  fix i assume "maxPoints < length pts" "i < maxPoints"
  then show "\<bar>int (strideIndex (length pts) maxPoints i)
                    - \<lfloor>real i * real (length pts) / real maxPoints\<rfloor>\<bar> \<le> 1"
    using assms(2) by (rule strideIndex_near)
next
  assume "length pts \<le> maxPoints"
  then show "downsampleTrack pts maxPoints = pts" by (rule downsampleTrack_short)
qed

lemma downsampleTrack_eight:
  "downsampleTrack [10, 11, 12, 13, 14, 15, 16, 17 :: nat] 4 = [10, 12, 14, 16, 17]"
  by (simp add: downsampleTrack_def pushSamples.simps jsDivide_def jsMultiply_def
        roundDouble_numeral roundDouble_zero)

theorem downsampleTrack_spec_witness:
  "(1::nat) \<le> 4
   \<and> length [10, 11, 12, 13, 14, 15, 16, 17 :: nat] < 2 ^ 32
   \<and> downsampleTrack [10, 11, 12, 13, 14, 15, 16, 17 :: nat] 4 = [10, 12, 14, 16, 17]
   \<and> length (downsampleTrack [10, 11, 12, 13, 14, 15, 16, 17 :: nat] 4) \<le> 4 + 1
   \<and> 17 \<in> set (downsampleTrack [10, 11, 12, 13, 14, 15, 16, 17 :: nat] 4)
   \<and> downsampleTrack [10, 11 :: nat] 4 = [10, 11]"
  using downsampleTrack_spec [of 4 "[10, 11, 12, 13, 14, 15, 16, 17 :: nat]"]
        downsampleTrack_spec [of 4 "[10, 11 :: nat]"]
  by (simp add: downsampleTrack_eight)

text \<open>Claim C10. For every array of points (fewer than \<open>2^32\<close> elements, the bound of
  the language on the length of an array) and every \<open>maxPoints \<ge> 1\<close>, the result of
  \<open>downsampleTrack\<close> is the input read at a strictly increasing list of positions inside
  the input: every element of the result is an element of the input, the elements keep
  their order, and no position is emitted twice.\<close>

theorem downsampleTrack_subsequence:
  assumes "1 \<le> maxPoints" and "length pts < 2 ^ 32"
  shows "\<exists>idxs. sorted_wrt (<) idxs \<and> (\<forall>j\<in>set idxs. j < length pts) \<and>
          downsampleTrack pts maxPoints = map (\<lambda>j. pts ! j) idxs"
  using assms(2) by (rule downsampleTrack_indices)

theorem downsampleTrack_subsequence_witness:
  "(1::nat) \<le> 4 \<and>
   length [10, 11, 12, 13, 14, 15, 16, 17 :: nat] < 2 ^ 32 \<and>
   downsampleTrack [10, 11, 12, 13, 14, 15, 16, 17 :: nat] 4 = [10, 12, 14, 16, 17] \<and>
   (\<exists>idxs. sorted_wrt (<) idxs \<and>
      (\<forall>j\<in>set idxs. j < length [10, 11, 12, 13, 14, 15, 16, 17 :: nat]) \<and>
      [10, 12, 14, 16, 17] = map (\<lambda>j. [10, 11, 12, 13, 14, 15, 16, 17 :: nat] ! j) idxs)"
proof -
  have len: "length [10, 11, 12, 13, 14, 15, 16, 17 :: nat] < 2 ^ 32" by simp
  show ?thesis
    using len downsampleTrack_subsequence [of 4 "[10, 11, 12, 13, 14, 15, 16, 17 :: nat]"]
    unfolding downsampleTrack_eight by simp
qed

subsection \<open>Projection\<close>

text \<open>Claim C2. For every latitude, longitude, elevation and centre, \<open>gpsToCartesian\<close>
  returns \<open>x = (lon - center.lon) * projectionScale * cos (center.lat in radians)\<close>,
  \<open>y = ele * elevationScale\<close> and \<open>z = - (lat - center.lat) * projectionScale\<close>; it has no
  failing case. Projecting the centre itself at elevation 0 gives \<open>(0, 0, 0)\<close>.\<close>

theorem gpsToCartesian_spec:
  "gpsToCartesian cfg la lo el center =
     Vector3 ((lo - lon center) * projectionScale cfg * cos (lat center * pi / 180))
             (el * elevationScale cfg)
             (- (la - lat center) * projectionScale cfg)
   \<and> gpsToCartesian cfg (lat center) (lon center) 0 center = Vector3 0 0 0"
  by (simp add: gpsToCartesian_def Let_def)

subsection \<open>The camera controller\<close>

text \<open>Claim C5. A \<open>change\<close> event delivered while the state that the listener reads,
  \<open>animationStateRef.current\<close>, is \<open>TRANSITIONING\<close> leaves the whole state of the hook as it
  is: no state change is requested, \<open>lastInteractionRef\<close> keeps its value, and the clock is
  not even read. In particular the state does not move to \<open>USER_CONTROL\<close>.\<close>

theorem handleInteraction_transitioning:
  assumes "animationStateRef s = TRANSITIONING"
  shows "handleInteraction clock k s = (s, k)"
  using assms by (simp add: handleInteraction_def)

theorem handleInteraction_transitioning_witness:
  "animationStateRef demoHook = TRANSITIONING \<and>
   handleInteraction (\<lambda>n. 2000) 0 demoHook = (demoHook, 0) \<and>
   animationState (fst (handleInteraction (\<lambda>n. 2000) 0 demoHook)) = TRANSITIONING \<and>
   lastInteractionRef (fst (handleInteraction (\<lambda>n. 2000) 0 demoHook)) = 0"
proof -
  have h: "animationStateRef demoHook = TRANSITIONING" by (simp add: demoHook_def)
  show ?thesis
    using h handleInteraction_transitioning [OF h, of "\<lambda>n. 2000" 0]
    by (simp add: demoHook_def)
qed

lemma easeInOutCubic_one: "easeInOutCubic 1 = 1"
  by (simp add: easeInOutCubic_def)

lemma lerp_one: "lerp a b 1 = roundDouble (a + roundDouble (b - a))"
  by (simp add: lerp_def jsAdd_def jsMultiply_def jsSubtract_def roundDouble_idem)

lemma lerp_one_near: "\<bar>lerp a b 1 - b\<bar> \<le> (\<bar>a\<bar> + \<bar>b\<bar>) / 2 ^ 51"
proof -
  define d where "d = roundDouble (b - a)"
  define w where "w = roundDouble (a + d)"
  define m where "m = \<bar>a\<bar> + \<bar>b\<bar>"
  define u :: real where "u = 1 / 2 ^ 53"
  have u: "0 < u" "u \<le> 1" by (simp_all add: u_def)
  have m: "0 \<le> m" "\<bar>b - a\<bar> \<le> m" "\<bar>b\<bar> \<le> m" by (simp_all add: m_def)
  have "\<bar>d - (b - a)\<bar> \<le> \<bar>b - a\<bar> * u"
    using roundDouble_relative [of "b - a"] by (simp add: d_def u_def)
  also have "\<dots> \<le> m * u"
    using m(2) u(1) by (simp add: mult_right_mono)
  finally have e1: "\<bar>d - (b - a)\<bar> \<le> m * u" .
  have "m * u \<le> m * 1"
    using u(2) m(1) by (rule mult_left_mono)
  then have mu: "m * u \<le> m" by simp
  have "\<bar>a + d\<bar> \<le> \<bar>b\<bar> + \<bar>d - (b - a)\<bar>" by linarith
  also have "\<dots> \<le> m + m" using e1 mu m(3) by linarith
  finally have s: "\<bar>a + d\<bar> \<le> 2 * m" by simp
  have "\<bar>w - (a + d)\<bar> \<le> \<bar>a + d\<bar> * u"
    using roundDouble_relative [of "a + d"] by (simp add: w_def u_def)
  also have "\<dots> \<le> (2 * m) * u"
    using s u(1) by (simp add: mult_right_mono)
  finally have e2: "\<bar>w - (a + d)\<bar> \<le> 2 * m * u" .
  have "\<bar>w - b\<bar> \<le> \<bar>w - (a + d)\<bar> + \<bar>d - (b - a)\<bar>" by linarith
  also have "\<dots> \<le> 2 * m * u + m * u" using e1 e2 by linarith
  also have "\<dots> \<le> 4 * (m * u)" using m(1) u(1) by simp
  also have "\<dots> = m / 2 ^ 51" by (simp add: u_def)
  finally show ?thesis
    by (simp add: lerp_one d_def w_def m_def)
qed

lemma lerpVectors_one_near: "withinRounding v1 v2 (lerpVectors v1 v2 1)"
  unfolding withinRounding_def lerpVectors_def vec3.sel
  by (intro conjI lerp_one_near)

lemma transitionProgress_one:
  assumes "0 < transitionSeconds (cameraAnimation cfg)"
    and "transitionSeconds (cameraAnimation cfg) \<le> transitionElapsed now s"
  shows "transitionProgress cfg now s = 1"
proof -
  have "1 \<le> transitionElapsed now s / transitionSeconds (cameraAnimation cfg)"
    using assms by (simp add: le_divide_eq)
  then have "roundDouble 1
      \<le> roundDouble (transitionElapsed now s / transitionSeconds (cameraAnimation cfg))"
    by (intro roundDouble_mono) simp_all
  then show ?thesis
    by (simp add: transitionProgress_def jsDivide_def roundDouble_one)
qed

lemma transitionFrame_at_one:
  assumes "animationState s = TRANSITIONING"
    and "transitionDataRef s = Some d"
    and "transitionProgress cfg (clock k) s = 1"
  shows "transitionFrame cfg update clock k s =
           ((case controlsTarget s of
               None \<Rightarrow>
                 s\<lparr> cameraPosition := lerpVectors (startPosition d) (targetPosition d) 1 \<rparr>
             | Some old \<Rightarrow>
                 (case update (lerpVectors (startPosition d) (targetPosition d) 1)
                              (lerpVectors (startTarget d) (targetLookAt d) 1) of
                    (p, t) \<Rightarrow> s\<lparr> cameraPosition := p, controlsTarget := Some t \<rparr>))
            \<lparr> animationState := AUTO, transitionDataRef := None \<rparr>,
            Suc k)"
  using assms
  by (simp add: easeInOutCubic_one transitionFrame_def Let_def
           split: option.split prod.split)

lemma roundDouble_seven_tenths: "roundDouble (7 / 10) = 6305039478318694 / 2 ^ 53"
proof -
  have "roundEven (7 / 10 / 2 powi (- 1 - 52)) = 6305039478318694"
    by (simp add: roundEven_def power_int_minus divide_simps)
  then show ?thesis
    by (subst roundDouble_eval [where e = "- 1"]) (simp_all add: power_int_minus)
qed

lemma roundDouble_minus_tenth: "roundDouble (- 1 / 10) = - 7205759403792794 / 2 ^ 56"
proof -
  have "roundEven (- 1 / 10 / 2 powi (- 4 - 52)) = - 7205759403792794"
    by (simp add: roundEven_def power_int_minus divide_simps)
  then show ?thesis
    by (subst roundDouble_eval [where e = "- 4"]) (simp_all add: power_int_minus)
qed

lemma lerp_rounding:
  "lerp (roundDouble (7 / 10)) (roundDouble (- 1 / 10)) 1 = - 7205759403792792 / 2 ^ 56"
proof -
  have d: "roundDouble (- 7205759403792794 / 2 ^ 56 - 6305039478318694 / 2 ^ 53)
      = - 7205759403792793 / 2 ^ 53"
  proof -
    have "roundEven ((- 7205759403792794 / 2 ^ 56 - 6305039478318694 / 2 ^ 53)
        / 2 powi (- 1 - 52)) = - 7205759403792793"
      by (simp add: roundEven_def power_int_minus divide_simps)
    then show ?thesis
      by (subst roundDouble_eval [where e = "- 1"]) (simp_all add: power_int_minus)
  qed
  have w: "roundDouble (6305039478318694 / 2 ^ 53 + - 7205759403792793 / 2 ^ 53)
      = - 7205759403792792 / 2 ^ 56"
  proof -
    have "roundEven ((6305039478318694 / 2 ^ 53 + - 7205759403792793 / 2 ^ 53)
        / 2 powi (- 4 - 52)) = - 7205759403792792"
      by (simp add: roundEven_def power_int_minus divide_simps)
    then show ?thesis
      by (subst roundDouble_eval [where e = "- 4"]) (simp_all add: power_int_minus)
  qed
  show ?thesis
    unfolding lerp_one roundDouble_seven_tenths roundDouble_minus_tenth d w ..
qed

text \<open>Against claim C1 as stated: a transition from \<open>x = 0.7\<close> to \<open>x = -0.1\<close> (both doubles)
  that has run for its whole duration, in a hook whose orbit controls are not mounted. The
  progress and the eased progress are 1, the state becomes \<open>AUTO\<close> and the data is cleared,
  but the position written is \<open>0.7 + (-0.1 - 0.7) * 1 = -0.09999999999999998\<close>, two units
  in the last place away from the recorded end position.\<close>

theorem transitionFrame_rounding_counterexample:
  "animationState roundingHook = TRANSITIONING
   \<and> transitionDataRef roundingHook = Some roundingPose
   \<and> 0 < transitionSeconds (cameraAnimation config)
   \<and> transitionSeconds (cameraAnimation config) \<le> transitionElapsed (lateClock 0) roundingHook
   \<and> transitionProgress config (lateClock 0) roundingHook = 1
   \<and> vx (targetPosition roundingPose) = - 7205759403792794 / 2 ^ 56
   \<and> vx (cameraPosition (fst (transitionFrame config keepPose lateClock 0 roundingHook)))
       = - 7205759403792792 / 2 ^ 56
   \<and> cameraPosition (fst (transitionFrame config keepPose lateClock 0 roundingHook))
       \<noteq> targetPosition roundingPose
   \<and> animationState (fst (transitionFrame config keepPose lateClock 0 roundingHook)) = AUTO"
proof -
  have el: "transitionElapsed (lateClock 0) roundingHook = 3 / 2"
  proof -
    have "roundDouble (3 / 2) = 3 / 2"
      by (rule roundDouble_exact [where k = 3 and j = "- 1"])
         (simp_all add: power_int_minus exponent_unique [where e = 0])
    then show ?thesis
      by (simp add: transitionElapsed_def lateClock_def roundingHook_def jsDivide_def)
  qed
  have h3: "0 < transitionSeconds (cameraAnimation config)" by (simp add: config_def)
  have h4: "transitionSeconds (cameraAnimation config)
      \<le> transitionElapsed (lateClock 0) roundingHook"
    by (simp add: el config_def)
  have p: "transitionProgress config (lateClock 0) roundingHook = 1"
    using h3 h4 by (rule transitionProgress_one)
  have h1: "animationState roundingHook = TRANSITIONING" by (simp add: roundingHook_def)
  have h2: "transitionDataRef roundingHook = Some roundingPose" by (simp add: roundingHook_def)
  have c: "controlsTarget roundingHook = None" by (simp add: roundingHook_def)
  have f: "fst (transitionFrame config keepPose lateClock 0 roundingHook) =
      roundingHook \<lparr> cameraPosition :=
          lerpVectors (startPosition roundingPose) (targetPosition roundingPose) 1,
        animationState := AUTO, transitionDataRef := None \<rparr>"
    using transitionFrame_at_one [where s = roundingHook and d = roundingPose and cfg = config
        and clock = lateClock and k = 0 and update = keepPose, OF h1 h2 p]
    by (simp add: c)
  have x: "vx (cameraPosition (fst (transitionFrame config keepPose lateClock 0 roundingHook)))
      = - 7205759403792792 / 2 ^ 56"
    unfolding f using lerp_rounding by (simp add: roundingPose_def lerpVectors_def)
  have t: "vx (targetPosition roundingPose) = - 7205759403792794 / 2 ^ 56"
    using roundDouble_minus_tenth by (simp add: roundingPose_def)
  have ne: "cameraPosition (fst (transitionFrame config keepPose lateClock 0 roundingHook))
      \<noteq> targetPosition roundingPose"
  proof
    assume "cameraPosition (fst (transitionFrame config keepPose lateClock 0 roundingHook))
      = targetPosition roundingPose"
    then have "vx (cameraPosition (fst (transitionFrame config keepPose lateClock 0 roundingHook)))
      = vx (targetPosition roundingPose)" by simp
    then show False unfolding x t by simp
  qed
  have st: "animationState (fst (transitionFrame config keepPose lateClock 0 roundingHook)) = AUTO"
    unfolding f by simp
  show ?thesis
    using h1 h2 h3 h4 p x t ne st by (intro conjI)
qed

text \<open>Claim C1, amended. When the frame callback runs in state \<open>TRANSITIONING\<close> with a
  recorded transition \<open>d\<close>, and the elapsed time is at least \<open>transitionSeconds\<close> (a positive
  duration), then the computed progress is 1 and its eased value is 1; the camera position
  written is \<open>lerpVectors(startPosition, targetPosition, 1)\<close>, that is
  \<open>start + (end - start) * 1\<close> in doubles, which lies within \<open>(|start| + |end|) / 2^51\<close> of
  the recorded end position in each coordinate, and when the orbit controls are mounted
  their target is written in the same way from \<open>startTarget\<close> and \<open>targetLookAt\<close> and
  \<open>update\<close> is called on that pose, the camera pose after the frame being the one that
  \<open>update\<close> leaves; the transition data is cleared and the state is set to \<open>AUTO\<close>.\<close>

theorem transitionFrame_completes:
  assumes "animationState s = TRANSITIONING"
    and "transitionDataRef s = Some d"
    and "0 < transitionSeconds (cameraAnimation cfg)"
    and "transitionSeconds (cameraAnimation cfg) \<le> transitionElapsed (clock k) s"
  shows "transitionProgress cfg (clock k) s = 1
       \<and> easeInOutCubic (transitionProgress cfg (clock k) s) = 1
       \<and> transitionFrame cfg update clock k s =
           ((case controlsTarget s of
               None \<Rightarrow>
                 s\<lparr> cameraPosition := lerpVectors (startPosition d) (targetPosition d) 1 \<rparr>
             | Some old \<Rightarrow>
                 (case update (lerpVectors (startPosition d) (targetPosition d) 1)
                              (lerpVectors (startTarget d) (targetLookAt d) 1) of
                    (p, t) \<Rightarrow> s\<lparr> cameraPosition := p, controlsTarget := Some t \<rparr>))
            \<lparr> animationState := AUTO, transitionDataRef := None \<rparr>,
            Suc k)
       \<and> withinRounding (startPosition d) (targetPosition d)
           (lerpVectors (startPosition d) (targetPosition d) 1)
       \<and> withinRounding (startTarget d) (targetLookAt d)
           (lerpVectors (startTarget d) (targetLookAt d) 1)"
proof -
  have p: "transitionProgress cfg (clock k) s = 1"
    using assms(3,4) by (rule transitionProgress_one)
  show ?thesis
    using p transitionFrame_at_one [where s = s and d = d and cfg = cfg and clock = clock
        and k = k and update = update, OF assms(1,2) p]
    by (simp add: easeInOutCubic_one lerpVectors_one_near)
qed

theorem transitionFrame_completes_witness:
  "animationState demoHook = TRANSITIONING
   \<and> transitionDataRef demoHook = Some demoPose
   \<and> 0 < transitionSeconds (cameraAnimation config)
   \<and> transitionSeconds (cameraAnimation config) \<le> transitionElapsed (lateClock 0) demoHook
   \<and> lerpVectors (startPosition demoPose) (targetPosition demoPose) 1 = Vector3 10 60 (- 20)
   \<and> lerpVectors (startTarget demoPose) (targetLookAt demoPose) 1 = Vector3 5 1 (- 3)
   \<and> fst (transitionFrame config settlePose lateClock 0 demoHook) =
       demoHook \<lparr> cameraPosition := Vector3 10 60 (- 20 + 3 / 2 ^ 48),
                  controlsTarget := Some (Vector3 5 1 (- 3)),
                  animationState := AUTO, transitionDataRef := None \<rparr>
   \<and> withinRounding (Vector3 0 150 150) (Vector3 10 60 (- 20)) (Vector3 10 60 (- 20))"
proof -
  have el: "transitionElapsed (lateClock 0) demoHook = 3 / 2"
  proof -
    have "roundDouble (3 / 2) = 3 / 2"
      by (rule roundDouble_exact [where k = 3 and j = "- 1"])
         (simp_all add: power_int_minus exponent_unique [where e = 0])
    then show ?thesis
      by (simp add: transitionElapsed_def lateClock_def demoHook_def jsDivide_def)
  qed
  have h1: "animationState demoHook = TRANSITIONING" by (simp add: demoHook_def)
  have h2: "transitionDataRef demoHook = Some demoPose" by (simp add: demoHook_def)
  have h3: "0 < transitionSeconds (cameraAnimation config)" by (simp add: config_def)
  have h4: "transitionSeconds (cameraAnimation config) \<le> transitionElapsed (lateClock 0) demoHook"
    by (simp add: el config_def)
  have l: "lerpVectors (Vector3 0 150 150) (Vector3 10 60 (- 20)) 1 = Vector3 10 60 (- 20)"
    "lerpVectors (Vector3 0 0 0) (Vector3 5 1 (- 3)) 1 = Vector3 5 1 (- 3)"
    by (simp_all add: lerpVectors_def lerp_one roundDouble_numeral roundDouble_zero
          roundDouble_one)
  show ?thesis
    using h1 h2 h3 h4
      transitionFrame_completes [where s = demoHook and d = demoPose and cfg = config
        and clock = lateClock and k = 0 and update = settlePose, OF h1 h2 h3 h4]
    by (simp add: demoHook_def demoPose_def settlePose_def l)
qed

subsection \<open>Animation progress\<close>





subsection \<open>Featured-track selection\<close>

text \<open>A result of the loop is the index computed from the last reading consumed, and with
  more than one track it differs from the featured index.\<close>

lemma selectLoop_sound:
  assumes "selectLoop rnd r len featured = Some y"
  shows "r < snd y \<and> fst y = \<lfloor>rnd (snd y - 1) * real len\<rfloor>
         \<and> (1 < len \<longrightarrow> Some (fst y) \<noteq> featured)"
proof (rule selectLoop.raw_induct
    [where P = "\<lambda>rnd r len featured y. r < snd y \<and> fst y = \<lfloor>rnd (snd y - 1) * real len\<rfloor>
         \<and> (1 < len \<longrightarrow> Some (fst y) \<noteq> featured)", OF _ assms])
  fix loop :: "(nat \<Rightarrow> real) \<Rightarrow> nat \<Rightarrow> nat \<Rightarrow> int option \<Rightarrow> (int \<times> nat) option"
    and rnd r len featured y
  assume IH: "\<And>rnd r len featured y. loop rnd r len featured = Some y \<Longrightarrow>
      r < snd y \<and> fst y = \<lfloor>rnd (snd y - 1) * real len\<rfloor>
         \<and> (1 < len \<longrightarrow> Some (fst y) \<noteq> featured)"
    and eq: "(let newIndex = \<lfloor>rnd r * real len\<rfloor>
              in if Some newIndex = featured \<and> 1 < len
                 then loop rnd (Suc r) len featured
                 else Some (newIndex, Suc r)) = Some y"
  show "r < snd y \<and> fst y = \<lfloor>rnd (snd y - 1) * real len\<rfloor>
         \<and> (1 < len \<longrightarrow> Some (fst y) \<noteq> featured)"
  proof (cases "Some \<lfloor>rnd r * real len\<rfloor> = featured \<and> 1 < len")
    case True
    with eq have "loop rnd (Suc r) len featured = Some y"
      by (simp add: Let_def)
    from IH [OF this] show ?thesis by auto
  next
    case False
    with eq have "y = (\<lfloor>rnd r * real len\<rfloor>, Suc r)"
      by (auto simp: Let_def)
    with False show ?thesis by auto
  qed
qed



text \<open>The loop does not end on a source of readings that keeps producing the featured
  index.\<close>

lemma selectLoop_stuck: "selectLoop (\<lambda>n. 0) r 2 (Some 0) = None"
proof (cases "selectLoop (\<lambda>n. 0) r 2 (Some 0)")
  case None
  then show ?thesis .
next
  case (Some res)
  from selectLoop_sound [OF Some] show ?thesis by simp
qed



subsection \<open>Track processing\<close>

lemma processTrack_id:
  "processTrack cfg mkCurve center i t = Some pt \<Longrightarrow> trackId pt = i"
  by (auto simp: processTrack_def Let_def split: if_splits option.splits)

text \<open>A track that is kept has points, so the reads \<open>track[0]\<close> and
  \<open>track[track.length - 1]\<close> of the callback are inside the array.\<close>

lemma processTrack_reads_in_range:
  "processTrack cfg mkCurve center i t = Some pt \<Longrightarrow> 0 < length (points t)"
  by (cases "points t") (auto simp: processTrack_def downsampleTrack_def Let_def split: if_splits)

lemma processEach_set:
  assumes "pt \<in> set (processEach cfg mkCurve center i ts acc)"
  shows "pt \<in> set acc \<or>
         (i \<le> trackId pt \<and> trackId pt < i + length ts \<and>
          processTrack cfg mkCurve center (trackId pt) (ts ! (trackId pt - i)) = Some pt)"
  using assms
proof (induction ts arbitrary: i acc)
  case Nil
  then show ?case by simp
next
  case (Cons t ts)
  let ?acc' = "case processTrack cfg mkCurve center i t of None \<Rightarrow> acc | Some p \<Rightarrow> acc @ [p]"
  from Cons.prems have "pt \<in> set (processEach cfg mkCurve center (Suc i) ts ?acc')" by simp
  from Cons.IH [OF this] consider (old) "pt \<in> set ?acc'"
    | (new) "Suc i \<le> trackId pt" "trackId pt < Suc i + length ts"
        "processTrack cfg mkCurve center (trackId pt) (ts ! (trackId pt - Suc i)) = Some pt"
    by blast
  then show ?case
  proof cases
    case old
    show ?thesis
    proof (cases "pt \<in> set acc")
      case True
      then show ?thesis by simp
    next
      case False
      with old have here: "processTrack cfg mkCurve center i t = Some pt"
        by (auto split: option.splits)
      then have "trackId pt = i" by (rule processTrack_id)
      with here show ?thesis by simp
    qed
  next
    case new
    from new(1) have "(t # ts) ! (trackId pt - i) = ts ! (trackId pt - Suc i)"
      by (simp add: nth_Cons')
    with new show ?thesis by simp
  qed
qed

lemma processEach_ids:
  "map trackId (processEach cfg mkCurve center i ts acc) =
     map trackId acc @
     filter (\<lambda>j. processTrack cfg mkCurve center j (ts ! (j - i)) \<noteq> None) [i..<i + length ts]"
proof (induction ts arbitrary: i acc)
  case Nil
  then show ?case by simp
next
  case (Cons t ts)
  have tail: "filter (\<lambda>j. processTrack cfg mkCurve center j ((t # ts) ! (j - i)) \<noteq> None)
                [Suc i..<Suc i + length ts] =
              filter (\<lambda>j. processTrack cfg mkCurve center j (ts ! (j - Suc i)) \<noteq> None)
                [Suc i..<Suc i + length ts]"
    by (rule filter_cong) (auto simp: nth_Cons')
  have upt: "[i..<i + length (t # ts)] = i # [Suc i..<Suc i + length ts]"
    by (subst upt_rec) simp
  show ?case
  proof (cases "processTrack cfg mkCurve center i t")
    case None
    then show ?thesis unfolding upt using tail by (simp add: Cons.IH del: upt_Suc)
  next
    case (Some p)
    then have "trackId p = i" by (rule processTrack_id)
    with Some show ?thesis unfolding upt using tail by (simp add: Cons.IH del: upt_Suc)
  qed
qed

text \<open>Claim C9. For every track collection, each processed track carries as \<open>id\<close> its
  position in the input of \<open>processTracks\<close>: the track was built from the input track at
  that position, and the ids of the result are, in order, exactly the input positions of
  the tracks that were not dropped. Dropping tracks therefore never renumbers the others.\<close>

theorem processTracks_ids:
  "(\<forall>pt\<in>set (processTracks cfg mkCurve (Some ts)).
      trackId pt < length ts \<and>
      processTrack cfg mkCurve (calculateCenter ts) (trackId pt) (ts ! trackId pt) = Some pt)
   \<and> map trackId (processTracks cfg mkCurve (Some ts)) =
       filter (\<lambda>i. processTrack cfg mkCurve (calculateCenter ts) i (ts ! i) \<noteq> None)
         [0..<length ts]"
proof (cases "ts = []")
  case True
  then show ?thesis by (simp add: processTracks_def)
next
  case False
  then have eq: "processTracks cfg mkCurve (Some ts) =
      processEach cfg mkCurve (calculateCenter ts) 0 ts []"
    by (simp add: processTracks_def)
  show ?thesis
  proof (intro conjI ballI)
    fix pt assume "pt \<in> set (processTracks cfg mkCurve (Some ts))"
    then have "pt \<in> set (processEach cfg mkCurve (calculateCenter ts) 0 ts [])"
      by (simp only: eq)
    from processEach_set [OF this]
    show "trackId pt < length ts" by simp
    from processEach_set [OF \<open>pt \<in> set (processEach cfg mkCurve (calculateCenter ts) 0 ts [])\<close>]
    show "processTrack cfg mkCurve (calculateCenter ts) (trackId pt) (ts ! trackId pt) = Some pt"
      by simp
  next
    show "map trackId (processTracks cfg mkCurve (Some ts)) =
       filter (\<lambda>i. processTrack cfg mkCurve (calculateCenter ts) i (ts ! i) \<noteq> None)
         [0..<length ts]"
      unfolding eq using processEach_ids [of cfg mkCurve "calculateCenter ts" 0 ts "[]"]
      by simp
  qed
qed

theorem processTracks_ids_witness:
  "length demoTracks = 3
   \<and> map trackId (processTracks config Some (Some demoTracks)) = [0, 2]"
proof -
  have ids: "filter (\<lambda>i. processTrack config Some (calculateCenter demoTracks) i (demoTracks ! i) \<noteq> None)
               [0..<length demoTracks] = [0, 2]"
    by (simp add: demoTracks_def processTrack_def downsampleTrack_def config_def Let_def)
  from processTracks_ids [of config Some demoTracks]
  have "map trackId (processTracks config Some (Some demoTracks)) =
       filter (\<lambda>i. processTrack config Some (calculateCenter demoTracks) i (demoTracks ! i) \<noteq> None)
         [0..<length demoTracks]"
    by blast
  then have "map trackId (processTracks config Some (Some demoTracks)) = [0, 2]"
    by (simp only: ids)
  moreover have "length demoTracks = 3" by (simp add: demoTracks_def)
  ultimately show ?thesis by blast
qed

lemma addTracks_no_points:
  "\<forall>t\<in>set ts. points t = [] \<Longrightarrow> addTracks ts acc = acc"
  by (induction ts arbitrary: acc) simp_all

lemma processTrack_no_points:
  "points t = [] \<Longrightarrow> processTrack cfg mkCurve center i t = None"
  by (simp add: processTrack_def downsampleTrack_def)

lemma processEach_no_points:
  "\<forall>t\<in>set ts. points t = [] \<Longrightarrow> processEach cfg mkCurve center i ts acc = acc"
  by (induction ts arbitrary: i acc) (simp_all add: processTrack_no_points)

text \<open>Against claim C8 as stated: with no track at all, and with one track that has no
  point, \<open>processTracks\<close> returns the empty array, a normal result; in the second case the
  centre is computed and is not a number.\<close>

theorem processTracks_zero_points_counterexample:
  "processTracks config Some (Some []) = []
   \<and> calculateCenter [emptyTrack] = None
   \<and> processTracks config Some (Some [emptyTrack]) = []"
  by (simp add: processTracks_def calculateCenter_def emptyTrack_def processTrack_def
        downsampleTrack_def)

text \<open>Claim C8, amended. When the input holds no point at all, \<open>processTracks\<close> returns
  the empty array as a normal result and raises nothing: a \<open>null\<close> or empty collection is
  answered at once, and for a collection of tracks without points the centre is not a
  number and every track is dropped.\<close>

theorem processTracks_zero_points:
  "processTracks cfg mkCurve None = []
   \<and> processTracks cfg mkCurve (Some []) = []
   \<and> ((\<forall>t\<in>set ts. points t = []) \<longrightarrow>
        calculateCenter ts = None \<and> processTracks cfg mkCurve (Some ts) = [])"
proof (intro conjI impI)
  show "processTracks cfg mkCurve None = []" by (simp add: processTracks_def)
  show "processTracks cfg mkCurve (Some []) = []" by (simp add: processTracks_def)
next
  assume "\<forall>t\<in>set ts. points t = []"
  then show "calculateCenter ts = None"
    by (simp add: calculateCenter_def addTracks_no_points)
next
  assume "\<forall>t\<in>set ts. points t = []"
  then show "processTracks cfg mkCurve (Some ts) = []"
    by (simp add: processTracks_def processEach_no_points)
qed

theorem processTracks_zero_points_witness:
  "points emptyTrack = []
   \<and> calculateCenter [emptyTrack, emptyTrack] = None
   \<and> processTracks config Some (Some [emptyTrack, emptyTrack]) = []"
proof -
  have e: "points emptyTrack = []" by (simp add: emptyTrack_def)
  then have h: "\<forall>t\<in>set [emptyTrack, emptyTrack]. points t = []" by simp
  show ?thesis
    using e h processTracks_zero_points [of config Some "[emptyTrack, emptyTrack]"] by blast
qed

subsection \<open>The frame of the runner orbs\<close>

lemma writeAll_fields:
  "needsUpdate (writeAll slot ms msh) = needsUpdate msh
   \<and> count (writeAll slot ms msh) = count msh
   \<and> emissiveIntensity (writeAll slot ms msh) = emissiveIntensity msh"
  by (induction ms arbitrary: slot msh) (simp_all add: setMatrixAt_def)

lemma writeAll_lookup:
  "instanceMatrix (writeAll slot ms msh) j =
     (if slot \<le> j \<and> j < slot + length ms then Some (ms ! (j - slot))
      else instanceMatrix msh j)"
proof (induction ms arbitrary: slot msh)
  case Nil
  then show ?case by auto
next
  case (Cons m ms)
  show ?case
  proof (cases "j = slot")
    case True
    then show ?thesis
      using Cons.IH [of "Suc slot" "setMatrixAt slot m msh"] by (simp add: setMatrixAt_def)
  next
    case False
    then show ?thesis by (auto simp: Cons.IH setMatrixAt_def nth_Cons' Suc_diff_Suc)
  qed
qed

lemma updateInstances_eq:
  "updateInstances cfg getPoint p featured i ts (nfi, fi, refs) =
     (nfi + (if nonFeaturedMeshRef refs = None then 0
             else length (orbCurves False featured i ts)),
      fi + (if featuredMeshRef refs = None then 0
            else length (orbCurves True featured i ts)),
      refs\<lparr> nonFeaturedMeshRef :=
               map_option
                 (writeAll nfi
                    (map (\<lambda>c. \<lparr> position = getPointOnCurve getPoint c p,
                                   scale = Vector3 1 1 1 \<rparr>)
                       (orbCurves False featured i ts)))
                 (nonFeaturedMeshRef refs),
             featuredMeshRef :=
               map_option
                 (writeAll fi
                    (map (\<lambda>c. \<lparr> position = getPointOnCurve getPoint c p,
                                   scale = Vector3 (featuredRunSize cfg) (featuredRunSize cfg)
                                             (featuredRunSize cfg) \<rparr>)
                       (orbCurves True featured i ts)))
                 (featuredMeshRef refs) \<rparr>)"
proof (induction ts arbitrary: i nfi fi refs)
  case Nil
  then show ?case by (simp add: option.map_ident)
next
  case (Cons t ts)
  show ?case
  proof (cases "curve t")
    case None
    then show ?thesis by (simp add: Cons.IH)
  next
    case (Some c)
    show ?thesis
    proof (cases "Some (int i) = featured")
      case True
      then show ?thesis
        using Some by (cases "featuredMeshRef refs") (simp_all add: Cons.IH Let_def)
    next
      case False
      then show ?thesis
        using Some by (cases "nonFeaturedMeshRef refs") (simp_all add: Cons.IH Let_def)
    qed
  qed
qed

text \<open>Claim C7. A frame of \<open>RunnerOrbs\<close> reads the clock once (the position of the next
  reading advances by one), and there is one progress value \<open>p\<close>, computed from that
  reading, such that each mounted mesh holds, for every track written to it and in the
  order of the tracks, the position \<open>getPointOnCurve(track.curve, p)\<close>: no two tracks of a
  frame are sampled at different progress values.\<close>

theorem runnerOrbsFrame_synchrony:
  "\<exists>p. p = animationProgress cfg (elapsedSeconds (clock k) (startTimeRef refs))
     \<and> snd (runnerOrbsFrame cfg getPoint clock k tracks featured refs) = Suc k
     \<and> (\<forall>msh. nonFeaturedMeshRef refs = Some msh \<longrightarrow>
          (\<exists>msh'. nonFeaturedMeshRef (fst (runnerOrbsFrame cfg getPoint clock k tracks featured refs))
                    = Some msh'
             \<and> count msh' = length (orbCurves False featured 0 tracks)
             \<and> (\<forall>j<count msh'. instanceMatrix msh' j =
                   Some \<lparr> position =
                            getPointOnCurve getPoint (orbCurves False featured 0 tracks ! j) p,
                          scale = Vector3 1 1 1 \<rparr>)))
     \<and> (\<forall>msh. featuredMeshRef refs = Some msh \<longrightarrow>
          (\<exists>msh'. featuredMeshRef (fst (runnerOrbsFrame cfg getPoint clock k tracks featured refs))
                    = Some msh'
             \<and> count msh' = length (orbCurves True featured 0 tracks)
             \<and> (\<forall>j<count msh'. instanceMatrix msh' j =
                   Some \<lparr> position =
                            getPointOnCurve getPoint (orbCurves True featured 0 tracks ! j) p,
                          scale = Vector3 (featuredRunSize cfg) (featuredRunSize cfg)
                                    (featuredRunSize cfg) \<rparr>)))"
proof -
  define p where "p = animationProgress cfg (elapsedSeconds (clock k) (startTimeRef refs))"
  have k: "snd (runnerOrbsFrame cfg getPoint clock k tracks featured refs) = Suc k"
    by (simp add: runnerOrbsFrame_def Let_def split: prod.split)
  have nf: "\<exists>msh'. nonFeaturedMeshRef (fst (runnerOrbsFrame cfg getPoint clock k tracks featured refs))
                    = Some msh'
             \<and> count msh' = length (orbCurves False featured 0 tracks)
             \<and> (\<forall>j<count msh'. instanceMatrix msh' j =
                   Some \<lparr> position =
                            getPointOnCurve getPoint (orbCurves False featured 0 tracks ! j) p,
                          scale = Vector3 1 1 1 \<rparr>)"
    if "nonFeaturedMeshRef refs = Some msh" for msh
    using that
    by (cases "featuredMeshRef refs")
       (simp_all add: runnerOrbsFrame_def Let_def updateInstances_eq p_def writeAll_lookup
          writeAll_fields)
  have ft: "\<exists>msh'. featuredMeshRef (fst (runnerOrbsFrame cfg getPoint clock k tracks featured refs))
                    = Some msh'
             \<and> count msh' = length (orbCurves True featured 0 tracks)
             \<and> (\<forall>j<count msh'. instanceMatrix msh' j =
                   Some \<lparr> position =
                            getPointOnCurve getPoint (orbCurves True featured 0 tracks ! j) p,
                          scale = Vector3 (featuredRunSize cfg) (featuredRunSize cfg)
                                    (featuredRunSize cfg) \<rparr>)"
    if "featuredMeshRef refs = Some msh" for msh
    using that
    by (cases "nonFeaturedMeshRef refs")
       (simp_all add: runnerOrbsFrame_def Let_def updateInstances_eq p_def writeAll_lookup
          writeAll_fields)
  from k nf ft p_def show ?thesis by blast
qed


theorem runnerOrbsFrame_synchrony_witness:
  "nonFeaturedMeshRef demoRefs = Some demoMesh \<and> featuredMeshRef demoRefs = Some demoMesh
   \<and> snd (runnerOrbsFrame config segmentPoint (\<lambda>n. 16000) 0 demoOrbs (Some 1) demoRefs) = 1
   \<and> (\<exists>m. nonFeaturedMeshRef
              (fst (runnerOrbsFrame config segmentPoint (\<lambda>n. 16000) 0 demoOrbs (Some 1) demoRefs))
            = Some m
          \<and> count m = 2
          \<and> instanceMatrix m 0 = Some \<lparr> position = Vector3 1 2 3, scale = Vector3 1 1 1 \<rparr>
          \<and> instanceMatrix m 1 = Some \<lparr> position = Vector3 6 6 6, scale = Vector3 1 1 1 \<rparr>)
   \<and> (\<exists>m. featuredMeshRef
              (fst (runnerOrbsFrame config segmentPoint (\<lambda>n. 16000) 0 demoOrbs (Some 1) demoRefs))
            = Some m
          \<and> count m = 1
          \<and> instanceMatrix m 0 =
              Some \<lparr> position = Vector3 10 0 0,
                     scale = Vector3 (12 / 10) (12 / 10) (12 / 10) \<rparr>)"
proof -
  let ?frame = "runnerOrbsFrame config segmentPoint (\<lambda>n. 16000) 0 demoOrbs (Some 1) demoRefs"
  have n: "nonFeaturedMeshRef demoRefs = Some demoMesh"
    and f: "featuredMeshRef demoRefs = Some demoMesh"
    by (simp_all add: demoRefs_def)
  have quarter: "animationProgress config (elapsedSeconds 16000 (startTimeRef demoRefs)) = 1 / 4"
    by (simp add: animationProgress_def elapsedSeconds_def jsRemainder_def config_def
          demoRefs_def)
  have nfc: "orbCurves False (Some 1) 0 demoOrbs =
      [(Vector3 0 0 0, Vector3 4 8 12), (Vector3 8 8 8, Vector3 0 0 0)]"
    by (simp add: demoOrbs_def demoOrb_def)
  have ftc: "orbCurves True (Some 1) 0 demoOrbs = [(Vector3 0 0 0, Vector3 40 0 0)]"
    by (simp add: demoOrbs_def demoOrb_def)
  have size: "featuredRunSize config = 12 / 10" by (simp add: config_def)
  have pts: "getPointOnCurve segmentPoint (Vector3 0 0 0, Vector3 4 8 12) (1 / 4) = Vector3 1 2 3"
    "getPointOnCurve segmentPoint (Vector3 8 8 8, Vector3 0 0 0) (1 / 4) = Vector3 6 6 6"
    "getPointOnCurve segmentPoint (Vector3 0 0 0, Vector3 40 0 0) (1 / 4) = Vector3 10 0 0"
    by (simp_all add: getPointOnCurve_def segmentPoint_def lerpVectors_def lerp_def
          jsAdd_def jsMultiply_def jsSubtract_def roundDouble_numeral roundDouble_zero
          roundDouble_one)
  from runnerOrbsFrame_synchrony [of config "\<lambda>n. 16000" 0 demoRefs segmentPoint demoOrbs "Some 1"]
  obtain p where p: "p = animationProgress config (elapsedSeconds 16000 (startTimeRef demoRefs))"
    and k: "snd ?frame = Suc 0"
    and a: "\<forall>msh. nonFeaturedMeshRef demoRefs = Some msh \<longrightarrow>
          (\<exists>msh'. nonFeaturedMeshRef (fst ?frame) = Some msh'
             \<and> count msh' = length (orbCurves False (Some 1) 0 demoOrbs)
             \<and> (\<forall>j<count msh'. instanceMatrix msh' j =
                   Some \<lparr> position =
                            getPointOnCurve segmentPoint (orbCurves False (Some 1) 0 demoOrbs ! j) p,
                          scale = Vector3 1 1 1 \<rparr>))"
    and b: "\<forall>msh. featuredMeshRef demoRefs = Some msh \<longrightarrow>
          (\<exists>msh'. featuredMeshRef (fst ?frame) = Some msh'
             \<and> count msh' = length (orbCurves True (Some 1) 0 demoOrbs)
             \<and> (\<forall>j<count msh'. instanceMatrix msh' j =
                   Some \<lparr> position =
                            getPointOnCurve segmentPoint (orbCurves True (Some 1) 0 demoOrbs ! j) p,
                          scale = Vector3 (featuredRunSize config) (featuredRunSize config)
                                    (featuredRunSize config) \<rparr>))"
    by blast
  from p quarter have p4: "p = 1 / 4" by simp
  from a n obtain m where m: "nonFeaturedMeshRef (fst ?frame) = Some m"
    and mc: "count m = length (orbCurves False (Some 1) 0 demoOrbs)"
    and mi: "\<forall>j<count m. instanceMatrix m j =
                   Some \<lparr> position =
                            getPointOnCurve segmentPoint (orbCurves False (Some 1) 0 demoOrbs ! j) p,
                          scale = Vector3 1 1 1 \<rparr>"
    by blast
  from mc have mc2: "count m = 2" by (simp add: nfc)
  from mi mc2 have "instanceMatrix m 0 = Some \<lparr> position = Vector3 1 2 3, scale = Vector3 1 1 1 \<rparr>"
    "instanceMatrix m 1 = Some \<lparr> position = Vector3 6 6 6, scale = Vector3 1 1 1 \<rparr>"
    by (simp_all add: nfc p4 pts)
  with m mc2 have A: "\<exists>m. nonFeaturedMeshRef (fst ?frame) = Some m
          \<and> count m = 2
          \<and> instanceMatrix m 0 = Some \<lparr> position = Vector3 1 2 3, scale = Vector3 1 1 1 \<rparr>
          \<and> instanceMatrix m 1 = Some \<lparr> position = Vector3 6 6 6, scale = Vector3 1 1 1 \<rparr>"
    by blast
  from b f obtain m' where m': "featuredMeshRef (fst ?frame) = Some m'"
    and mc': "count m' = length (orbCurves True (Some 1) 0 demoOrbs)"
    and mi': "\<forall>j<count m'. instanceMatrix m' j =
                   Some \<lparr> position =
                            getPointOnCurve segmentPoint (orbCurves True (Some 1) 0 demoOrbs ! j) p,
                          scale = Vector3 (featuredRunSize config) (featuredRunSize config)
                                    (featuredRunSize config) \<rparr>"
    by blast
  from mc' have mc1: "count m' = 1" by (simp add: ftc)
  from mi' mc1 have "instanceMatrix m' 0 =
      Some \<lparr> position = Vector3 10 0 0, scale = Vector3 (12 / 10) (12 / 10) (12 / 10) \<rparr>"
    by (simp add: ftc p4 pts size)
  with m' mc1 have B: "\<exists>m. featuredMeshRef (fst ?frame) = Some m
          \<and> count m = 1
          \<and> instanceMatrix m 0 =
              Some \<lparr> position = Vector3 10 0 0,
                     scale = Vector3 (12 / 10) (12 / 10) (12 / 10) \<rparr>"
    by blast
  from k have k1: "snd ?frame = 1" by simp
  from n f k1 A B show ?thesis by blast
qed

end
